theory Spec2Isabelle
  imports Main
begin

section \<open>The element type and the allocator\<close>

text \<open>
  \<^verbatim>\<open>vector.h\<close> is a class template over an element type \<open>T\<close>.  What the container
  can observe of \<open>T\<close> and of the global \<^verbatim>\<open>operator new\<close> is collected in one record:
  the two type traits tested by \<^verbatim>\<open>if constexpr\<close>, which special member functions
  throw on which operands, the state a moved-from object is left in, the outcome of
  value-initialisation \<^verbatim>\<open>T()\<close>, and which allocation requests fail.

  A copy yields a value equal to its source, a move yields the source's value and
  leaves the source in state \<open>moved_from\<close>.  An operation that throws leaves its
  operands as they were.  Destructors do not throw.

  \<^verbatim>\<open>size_t\<close> has 64 bits.  The one product the source forms from a number chosen by
  the caller, the byte count \<^verbatim>\<open>n * sizeof(T)\<close> of \<^verbatim>\<open>Allocate\<close>, is computed modulo
  \<open>2^64\<close> as the source computes it.  The counts of a vector that exists in memory are
  natural numbers: its block is an object of at most \<^verbatim>\<open>PTRDIFF_MAX\<close> bytes (see
  \<open>in_memory\<close> below), so neither \<^verbatim>\<open>size_ * 2\<close> nor \<^verbatim>\<open>++size_\<close> can wrap; every
  subtraction of the source that could wrap is guarded in the model and gives
  \<open>Violation\<close>.
\<close>

datatype failure =
    BadAlloc     \<comment> \<open>\<^verbatim>\<open>std::bad_alloc\<close> from \<^verbatim>\<open>operator new\<close>\<close>
  | ElemThrow    \<comment> \<open>an exception thrown by a member function of \<open>T\<close>\<close>
  | Violation    \<comment> \<open>a failed \<^verbatim>\<open>assert\<close> or undefined behaviour; not an exception\<close>

record 'a env =
  nothrow_move_constructible :: bool
  copy_constructible :: bool
  copy_ctor_throws :: "'a \<Rightarrow> bool"
  move_ctor_throws :: "'a \<Rightarrow> bool"
  copy_assign_throws :: "'a \<Rightarrow> 'a \<Rightarrow> bool"
  move_assign_throws :: "'a \<Rightarrow> 'a \<Rightarrow> bool"
  moved_from :: "'a \<Rightarrow> 'a"
  value_init :: "failure + 'a"
  new_fails :: "nat \<Rightarrow> bool"  \<comment> \<open>\<^verbatim>\<open>operator new\<close> throws when \<^verbatim>\<open>Allocate(n)\<close> calls it\<close>
  sizeof_T :: nat  \<comment> \<open>\<^verbatim>\<open>sizeof(T)\<close>\<close>

text \<open>\<^verbatim>\<open>T(const T&)\<close>\<close>
definition T_copy :: "'a env \<Rightarrow> 'a \<Rightarrow> failure + 'a" where
  "T_copy env x = (if copy_ctor_throws env x then Inl ElemThrow else Inr x)"

text \<open>\<^verbatim>\<open>T(T&&)\<close>: the new object and the moved-from source.  A type whose trait
  \<^verbatim>\<open>is_nothrow_move_constructible\<close> holds never throws here.\<close>
definition T_move :: "'a env \<Rightarrow> 'a \<Rightarrow> failure + 'a \<times> 'a" where
  "T_move env x =
     (if \<not> nothrow_move_constructible env \<and> move_ctor_throws env x then Inl ElemThrow
      else Inr (x, moved_from env x))"

text \<open>\<^verbatim>\<open>dst = src\<close>: the new value of \<open>dst\<close>.\<close>
definition T_copy_assign :: "'a env \<Rightarrow> 'a \<Rightarrow> 'a \<Rightarrow> failure + 'a" where
  "T_copy_assign env dst src = (if copy_assign_throws env dst src then Inl ElemThrow else Inr src)"

text \<open>\<^verbatim>\<open>dst = std::move(src)\<close>: the new value of \<open>dst\<close> and the moved-from \<open>src\<close>.\<close>
definition T_move_assign :: "'a env \<Rightarrow> 'a \<Rightarrow> 'a \<Rightarrow> failure + 'a \<times> 'a" where
  "T_move_assign env dst src =
     (if move_assign_throws env dst src then Inl ElemThrow else Inr (src, moved_from env src))"

text \<open>Only exceptions are caught by \<^verbatim>\<open>catch (...)\<close> and unwound through.\<close>
definition is_exception :: "failure \<Rightarrow> bool" where
  "is_exception e = (e \<noteq> Violation)"

section \<open>Raw blocks and the standard algorithms on them\<close>

text \<open>
  A block of raw memory is a list of slots; a slot is \<open>None\<close> while it is raw and
  \<open>Some x\<close> while it holds a live object of value \<open>x\<close>.  A \<^verbatim>\<open>T*\<close> into a block is
  the offset of the slot.  Reading a raw slot or a slot outside the block is
  undefined behaviour, and so is constructing outside the block.
\<close>

type_synonym 'a block = "'a option list"

definition deref :: "'a block \<Rightarrow> nat \<Rightarrow> failure + 'a" where
  "deref b p = (if p < length b then (case b ! p of Some x \<Rightarrow> Inr x | None \<Rightarrow> Inl Violation)
                else Inl Violation)"

text \<open>Placement new \<^verbatim>\<open>new (p) T(...)\<close>, given the value the constructor produced.\<close>
definition construct_at :: "'a block \<Rightarrow> nat \<Rightarrow> 'a \<Rightarrow> failure + 'a block" where
  "construct_at b p x = (if p < length b then Inr (b[p := Some x]) else Inl Violation)"

text \<open>\<^verbatim>\<open>std::destroy_n(p, n)\<close>\<close>
fun destroy_n :: "'a block \<Rightarrow> nat \<Rightarrow> nat \<Rightarrow> failure option \<times> 'a block" where
  "destroy_n b p 0 = (None, b)"
| "destroy_n b p (Suc n) =
     (case deref b p of
        Inl e \<Rightarrow> (Some e, b)
      | Inr x \<Rightarrow> destroy_n (b[p := None]) (Suc p) n)"

text \<open>What an uninitialized-memory algorithm does with the slot it constructed when
  a later construction throws: the slot is destroyed while the exception unwinds.\<close>
definition unwind :: "failure \<Rightarrow> 'a block \<Rightarrow> nat \<Rightarrow> 'a block" where
  "unwind e b p = (if is_exception e then b[p := None] else b)"

text \<open>\<^verbatim>\<open>std::uninitialized_copy_n(src + s, n, dst + d)\<close>\<close>
fun uninitialized_copy_n ::
  "'a env \<Rightarrow> 'a block \<Rightarrow> nat \<Rightarrow> nat \<Rightarrow> 'a block \<Rightarrow> nat \<Rightarrow> failure option \<times> 'a block" where
  "uninitialized_copy_n env src s 0 dst d = (None, dst)"
| "uninitialized_copy_n env src s (Suc n) dst d =
     (case deref src s of
        Inl e \<Rightarrow> (Some e, dst)
      | Inr x \<Rightarrow>
          (case T_copy env x of
             Inl e \<Rightarrow> (Some e, dst)
           | Inr y \<Rightarrow>
               (case construct_at dst d y of
                  Inl e \<Rightarrow> (Some e, dst)
                | Inr dst1 \<Rightarrow>
                    (case uninitialized_copy_n env src (Suc s) n dst1 (Suc d) of
                       (None, dst2) \<Rightarrow> (None, dst2)
                     | (Some e, dst2) \<Rightarrow> (Some e, unwind e dst2 d)))))"

text \<open>\<^verbatim>\<open>std::uninitialized_move_n(src + s, n, dst + d)\<close>: the source block changes too.\<close>
fun uninitialized_move_n ::
  "'a env \<Rightarrow> 'a block \<Rightarrow> nat \<Rightarrow> nat \<Rightarrow> 'a block \<Rightarrow> nat
     \<Rightarrow> failure option \<times> 'a block \<times> 'a block" where
  "uninitialized_move_n env src s 0 dst d = (None, src, dst)"
| "uninitialized_move_n env src s (Suc n) dst d =
     (case deref src s of
        Inl e \<Rightarrow> (Some e, src, dst)
      | Inr x \<Rightarrow>
          (case T_move env x of
             Inl e \<Rightarrow> (Some e, src, dst)
           | Inr (y, x') \<Rightarrow>
               (case construct_at dst d y of
                  Inl e \<Rightarrow> (Some e, src, dst)
                | Inr dst1 \<Rightarrow>
                    (case uninitialized_move_n env (src[s := Some x']) (Suc s) n dst1 (Suc d) of
                       (None, src2, dst2) \<Rightarrow> (None, src2, dst2)
                     | (Some e, src2, dst2) \<Rightarrow> (Some e, src2, unwind e dst2 d)))))"

text \<open>\<^verbatim>\<open>std::uninitialized_value_construct_n(dst + d, n)\<close>\<close>
fun uninitialized_value_construct_n ::
  "'a env \<Rightarrow> 'a block \<Rightarrow> nat \<Rightarrow> nat \<Rightarrow> failure option \<times> 'a block" where
  "uninitialized_value_construct_n env dst d 0 = (None, dst)"
| "uninitialized_value_construct_n env dst d (Suc n) =
     (case value_init env of
        Inl e \<Rightarrow> (Some e, dst)
      | Inr y \<Rightarrow>
          (case construct_at dst d y of
             Inl e \<Rightarrow> (Some e, dst)
           | Inr dst1 \<Rightarrow>
               (case uninitialized_value_construct_n env dst1 (Suc d) n of
                  (None, dst2) \<Rightarrow> (None, dst2)
                | (Some e, dst2) \<Rightarrow> (Some e, unwind e dst2 d))))"

text \<open>\<^verbatim>\<open>std::move(first, first + n, d_first)\<close> inside one block: move-assignments,
  front to back.\<close>
fun std_move :: "'a env \<Rightarrow> 'a block \<Rightarrow> nat \<Rightarrow> nat \<Rightarrow> nat \<Rightarrow> failure option \<times> 'a block" where
  "std_move env b first 0 d_first = (None, b)"
| "std_move env b first (Suc n) d_first =
     (case deref b first of
        Inl e \<Rightarrow> (Some e, b)
      | Inr x \<Rightarrow>
          (case deref b d_first of
             Inl e \<Rightarrow> (Some e, b)
           | Inr y \<Rightarrow>
               (case T_move_assign env y x of
                  Inl e \<Rightarrow> (Some e, b)
                | Inr (y', x') \<Rightarrow>
                    std_move env (b[first := Some x', d_first := Some y']) (Suc first) n
                      (Suc d_first))))"

text \<open>\<^verbatim>\<open>std::move_backward(first, first + n, d_last)\<close> inside one block:
  move-assignments, back to front.\<close>
fun std_move_backward ::
  "'a env \<Rightarrow> 'a block \<Rightarrow> nat \<Rightarrow> nat \<Rightarrow> nat \<Rightarrow> failure option \<times> 'a block" where
  "std_move_backward env b first 0 d_last = (None, b)"
| "std_move_backward env b first (Suc n) d_last =
     (if d_last = 0 then (Some Violation, b)
      else
        (case deref b (first + n) of
           Inl e \<Rightarrow> (Some e, b)
         | Inr x \<Rightarrow>
             (case deref b (d_last - 1) of
                Inl e \<Rightarrow> (Some e, b)
              | Inr y \<Rightarrow>
                  (case T_move_assign env y x of
                     Inl e \<Rightarrow> (Some e, b)
                   | Inr (y', x') \<Rightarrow>
                       std_move_backward env (b[first + n := Some x', d_last - 1 := Some y'])
                         first n (d_last - 1)))))"

section \<open>RawMemory\<close>

text \<open>\<open>m_buffer\<close> and \<open>m_capacity\<close> are the members \<^verbatim>\<open>buffer_\<close> and \<^verbatim>\<open>capacity_\<close>.
  A \<^verbatim>\<open>RawMemory\<close> cannot be copied, so a block has one owner at a time and the
  pointer is modelled by the block it points to; \<open>None\<close> is \<^verbatim>\<open>nullptr\<close>.\<close>

record 'a RawMemory =
  m_buffer :: "'a block option"
  m_capacity :: nat

text \<open>The argument \<^verbatim>\<open>n * sizeof(T)\<close> that \<^verbatim>\<open>Allocate(n)\<close> passes to \<^verbatim>\<open>operator new\<close>: a
  product of two \<^verbatim>\<open>size_t\<close>, which wraps, and which the source does not check.\<close>
definition alloc_bytes :: "'a env \<Rightarrow> nat \<Rightarrow> nat" where
  "alloc_bytes env n = (n * sizeof_T env) mod 2 ^ 64"

text \<open>The number of objects of type \<open>T\<close> that fit into the memory so obtained.\<close>
definition alloc_slots :: "'a env \<Rightarrow> nat \<Rightarrow> nat" where
  "alloc_slots env n = alloc_bytes env n div sizeof_T env"

text \<open>\<^verbatim>\<open>static T* Allocate(size_t n)\<close>: the block has the slots that fit into the bytes
  asked for, which are \<open>n\<close> slots only when the product did not wrap.\<close>
definition Allocate :: "'a env \<Rightarrow> nat \<Rightarrow> failure + 'a block option" where
  "Allocate env n =
     (if n \<noteq> 0
      then (if new_fails env n then Inl BadAlloc
            else Inr (Some (replicate (alloc_slots env n) None)))
      else Inr None)"

text \<open>\<^verbatim>\<open>RawMemory() = default\<close>\<close>
definition RawMemory_default :: "'a RawMemory" where
  "RawMemory_default = \<lparr>m_buffer = None, m_capacity = 0\<rparr>"

text \<open>\<^verbatim>\<open>explicit RawMemory(size_t capacity)\<close>\<close>
definition RawMemory_sized :: "'a env \<Rightarrow> nat \<Rightarrow> failure + 'a RawMemory" where
  "RawMemory_sized env capacity =
     (case Allocate env capacity of
        Inl e \<Rightarrow> Inl e
      | Inr buf \<Rightarrow> Inr \<lparr>m_buffer = buf, m_capacity = capacity\<rparr>)"

text \<open>\<^verbatim>\<open>T* operator+(size_t offset)\<close>\<close>
definition RawMemory_plus :: "'a RawMemory \<Rightarrow> nat \<Rightarrow> failure + nat" where
  "RawMemory_plus raw offset = (if offset \<le> m_capacity raw then Inr offset else Inl Violation)"

text \<open>\<^verbatim>\<open>T& operator[](size_t index)\<close>: the reference is the offset of the slot.\<close>
definition RawMemory_index :: "'a RawMemory \<Rightarrow> nat \<Rightarrow> failure + nat" where
  "RawMemory_index raw index = (if index < m_capacity raw then Inr index else Inl Violation)"

text \<open>The block \<^verbatim>\<open>GetAddress()\<close> points to, and the same owner with the block's
  contents replaced.\<close>
definition block_of :: "'a RawMemory \<Rightarrow> 'a block" where
  "block_of raw = (case m_buffer raw of None \<Rightarrow> [] | Some b \<Rightarrow> b)"

definition set_block :: "'a RawMemory \<Rightarrow> 'a block \<Rightarrow> 'a RawMemory" where
  "set_block raw b = raw\<lparr>m_buffer := (case m_buffer raw of None \<Rightarrow> None | Some _ \<Rightarrow> Some b)\<rparr>"

text \<open>\<^verbatim>\<open>std::swap(a, b)\<close> on two scalar members, given as references into a store:
  \<^verbatim>\<open>tmp = a; a = b; b = tmp\<close>.\<close>
definition std_swap :: "('p \<Rightarrow> 'v) \<Rightarrow> 'p \<Rightarrow> 'p \<Rightarrow> ('p \<Rightarrow> 'v)" where
  "std_swap m a b = (let tmp = m a; m1 = m(a := m b) in m1(b := tmp))"

text \<open>\<^verbatim>\<open>void Swap(RawMemory& other)\<close>, on a store of \<^verbatim>\<open>RawMemory\<close> objects: \<open>this\<close> and
  \<open>other\<close> are addresses and may be the same object.\<close>
definition RawMemory_Swap :: "('p \<Rightarrow> 'a RawMemory) \<Rightarrow> 'p \<Rightarrow> 'p \<Rightarrow> ('p \<Rightarrow> 'a RawMemory)" where
  "RawMemory_Swap rs this other =
     (let bufs = std_swap (\<lambda>p. m_buffer (rs p)) this other;
          caps = std_swap (\<lambda>p. m_capacity (rs p)) this other
      in (\<lambda>p. \<lparr>m_buffer = bufs p, m_capacity = caps p\<rparr>))"

text \<open>\<^verbatim>\<open>RawMemory& operator=(RawMemory&& rhs)\<close>\<close>
definition RawMemory_move_assign ::
  "('p \<Rightarrow> 'a RawMemory) \<Rightarrow> 'p \<Rightarrow> 'p \<Rightarrow> ('p \<Rightarrow> 'a RawMemory)" where
  "RawMemory_move_assign rs this rhs = RawMemory_Swap rs this rhs"

text \<open>\<^verbatim>\<open>RawMemory(RawMemory&& other)\<close>: the new object, and the store \<open>other\<close> lives in.\<close>
definition RawMemory_move ::
  "('p \<Rightarrow> 'a RawMemory) \<Rightarrow> 'p \<Rightarrow> 'a RawMemory \<times> ('p \<Rightarrow> 'a RawMemory)" where
  "RawMemory_move rs other =
     (let rs1 = RawMemory_Swap (case_option RawMemory_default rs) None (Some other)
      in (rs1 None, \<lambda>p. rs1 (Some p)))"

text \<open>\<open>this->Swap(local)\<close> where \<open>local\<close> is a local object of the caller, so not \<open>*this\<close>:
  the new \<open>*this\<close> and the new local.\<close>
definition RawMemory_Swap_local :: "'a RawMemory \<Rightarrow> 'a RawMemory \<Rightarrow> 'a RawMemory \<times> 'a RawMemory" where
  "RawMemory_Swap_local this_obj local =
     (let rs = RawMemory_Swap (\<lambda>p. if p then this_obj else local) True False
      in (rs True, rs False))"

section \<open>Vector\<close>

text \<open>\<open>m_data\<close> and \<open>m_size\<close> are the members \<^verbatim>\<open>data_\<close> and \<^verbatim>\<open>size_\<close>.  An iterator
  (\<^verbatim>\<open>T*\<close>) is an offset from \<^verbatim>\<open>begin()\<close>.  A member function that changes \<open>*this\<close>
  only takes the vector and returns the outcome together with the vector as the
  call leaves it, also when the call fails.\<close>

record 'a Vector =
  m_data :: "'a RawMemory"
  m_size :: nat

definition Size :: "'a Vector \<Rightarrow> nat" where
  "Size v = m_size v"

definition Capacity :: "'a Vector \<Rightarrow> nat" where
  "Capacity v = m_capacity (m_data v)"

definition slots :: "'a Vector \<Rightarrow> 'a block" where
  "slots v = block_of (m_data v)"

definition set_slots :: "'a Vector \<Rightarrow> 'a block \<Rightarrow> 'a Vector" where
  "set_slots v b = v\<lparr>m_data := set_block (m_data v) b\<rparr>"

text \<open>\<^verbatim>\<open>begin()\<close>, \<^verbatim>\<open>cbegin()\<close>: \<^verbatim>\<open>data_.GetAddress()\<close>\<close>
definition Vector_begin :: "'a Vector \<Rightarrow> nat" where
  "Vector_begin v = 0"

text \<open>\<^verbatim>\<open>end()\<close>, \<^verbatim>\<open>cend()\<close>: \<^verbatim>\<open>data_ + size_\<close>\<close>
definition Vector_end :: "'a Vector \<Rightarrow> failure + nat" where
  "Vector_end v = RawMemory_plus (m_data v) (m_size v)"

text \<open>\<^verbatim>\<open>Vector() = default\<close>\<close>
definition Vector_default :: "'a Vector" where
  "Vector_default = \<lparr>m_data = RawMemory_default, m_size = 0\<rparr>"

text \<open>\<^verbatim>\<open>explicit Vector(size_t size)\<close>, the parameter written \<open>sz\<close>\<close>
definition Vector_sized :: "'a env \<Rightarrow> nat \<Rightarrow> failure + 'a Vector" where
  "Vector_sized env sz =
     (case RawMemory_sized env sz of
        Inl e \<Rightarrow> Inl e
      | Inr d \<Rightarrow>
          (case uninitialized_value_construct_n env (block_of d) 0 sz of
             (Some e, b) \<Rightarrow> Inl e
           | (None, b) \<Rightarrow> Inr \<lparr>m_data = set_block d b, m_size = sz\<rparr>))"

text \<open>\<^verbatim>\<open>Vector(const Vector& other)\<close>\<close>
definition Vector_copy :: "'a env \<Rightarrow> 'a Vector \<Rightarrow> failure + 'a Vector" where
  "Vector_copy env other =
     (case RawMemory_sized env (m_size other) of
        Inl e \<Rightarrow> Inl e
      | Inr d \<Rightarrow>
          (case uninitialized_copy_n env (slots other) 0 (m_size other) (block_of d) 0 of
             (Some e, b) \<Rightarrow> Inl e
           | (None, b) \<Rightarrow> Inr \<lparr>m_data = set_block d b, m_size = m_size other\<rparr>))"

text \<open>\<^verbatim>\<open>~Vector()\<close>: the block after \<^verbatim>\<open>destroy_n\<close>, just before it is released.\<close>
definition Vector_dtor :: "'a Vector \<Rightarrow> failure option \<times> 'a block" where
  "Vector_dtor v = destroy_n (slots v) 0 (m_size v)"

text \<open>\<^verbatim>\<open>T& operator[](size_t index)\<close>: the element referred to.\<close>
definition Vector_index :: "'a Vector \<Rightarrow> nat \<Rightarrow> failure + 'a" where
  "Vector_index v index =
     (if index < m_size v then
        (case RawMemory_index (m_data v) index of
           Inl e \<Rightarrow> Inl e
         | Inr r \<Rightarrow> deref (slots v) r)
      else Inl Violation)"

text \<open>\<^verbatim>\<open>void Swap(Vector& other)\<close>, on a store of vectors.\<close>
definition Vector_Swap :: "('p \<Rightarrow> 'a Vector) \<Rightarrow> 'p \<Rightarrow> 'p \<Rightarrow> ('p \<Rightarrow> 'a Vector)" where
  "Vector_Swap st this other =
     (let ds = RawMemory_Swap (\<lambda>p. m_data (st p)) this other;
          ss = std_swap (\<lambda>p. m_size (st p)) this other
      in (\<lambda>p. \<lparr>m_data = ds p, m_size = ss p\<rparr>))"

text \<open>\<^verbatim>\<open>Vector& operator=(Vector&& rhs)\<close>\<close>
definition Vector_move_assign :: "('p \<Rightarrow> 'a Vector) \<Rightarrow> 'p \<Rightarrow> 'p \<Rightarrow> ('p \<Rightarrow> 'a Vector)" where
  "Vector_move_assign st this rhs = Vector_Swap st this rhs"

text \<open>\<^verbatim>\<open>Vector(Vector&& other)\<close>: the new object, and the store \<open>other\<close> lives in.\<close>
definition Vector_move :: "('p \<Rightarrow> 'a Vector) \<Rightarrow> 'p \<Rightarrow> 'a Vector \<times> ('p \<Rightarrow> 'a Vector)" where
  "Vector_move st other =
     (let st1 = Vector_Swap (case_option Vector_default st) None (Some other)
      in (st1 None, \<lambda>p. st1 (Some p)))"

text \<open>The two migration steps shared by \<^verbatim>\<open>Reserve\<close> and \<^verbatim>\<open>EmplaceBack\<close>:
  \<^verbatim>\<open>if constexpr (nothrow-move || !copyable) uninitialized_move_n else uninitialized_copy_n\<close>,
  giving the old and the new block.\<close>
definition relocate_n ::
  "'a env \<Rightarrow> 'a block \<Rightarrow> nat \<Rightarrow> nat \<Rightarrow> 'a block \<Rightarrow> nat \<Rightarrow> failure option \<times> 'a block \<times> 'a block" where
  "relocate_n env src s n dst d =
     (if nothrow_move_constructible env \<or> \<not> copy_constructible env
      then uninitialized_move_n env src s n dst d
      else (case uninitialized_copy_n env src s n dst d of (r, dst') \<Rightarrow> (r, src, dst')))"

text \<open>\<^verbatim>\<open>std::destroy_n(data_.GetAddress(), size_); data_.Swap(new_data);\<close> where the old
  block holds \<open>ob\<close> and the block of the local \<open>new_data\<close> holds \<open>nb\<close>; \<open>new_data\<close>
  then goes out of scope and releases the old block.\<close>
definition adopt :: "'a Vector \<Rightarrow> 'a block \<Rightarrow> 'a RawMemory \<Rightarrow> 'a block \<Rightarrow> failure option \<times> 'a Vector" where
  "adopt v ob new_data nb =
     (case destroy_n ob 0 (m_size v) of
        (Some e, ob') \<Rightarrow> (Some e, set_slots v ob')
      | (None, ob') \<Rightarrow>
          (let (d, released) = RawMemory_Swap_local (set_block (m_data v) ob') (set_block new_data nb)
           in (None, v\<lparr>m_data := d\<rparr>)))"

text \<open>\<^verbatim>\<open>void Reserve(const size_t new_capacity)\<close>\<close>
definition Reserve :: "'a env \<Rightarrow> nat \<Rightarrow> 'a Vector \<Rightarrow> failure option \<times> 'a Vector" where
  "Reserve env new_capacity v =
     (if new_capacity \<le> m_capacity (m_data v) then (None, v)
      else
        (case RawMemory_sized env new_capacity of
           Inl e \<Rightarrow> (Some e, v)
         | Inr new_data \<Rightarrow>
             (case relocate_n env (slots v) 0 (m_size v) (block_of new_data) 0 of
                (Some e, ob, nb) \<Rightarrow> (Some e, set_slots v ob)
              | (None, ob, nb) \<Rightarrow> adopt v ob new_data nb)))"

text \<open>\<^verbatim>\<open>void Resize(size_t new_size)\<close>\<close>
definition Resize :: "'a env \<Rightarrow> nat \<Rightarrow> 'a Vector \<Rightarrow> failure option \<times> 'a Vector" where
  "Resize env new_size v =
     (if m_size v > new_size then
        (case destroy_n (slots v) new_size (m_size v - new_size) of
           (Some e, b) \<Rightarrow> (Some e, set_slots v b)
         | (None, b) \<Rightarrow> (None, (set_slots v b)\<lparr>m_size := new_size\<rparr>))
      else if m_size v < new_size then
        (case Reserve env new_size v of
           (Some e, v1) \<Rightarrow> (Some e, v1)
         | (None, v1) \<Rightarrow>
             (case uninitialized_value_construct_n env (slots v1) (m_size v1)
                     (new_size - m_size v1) of
                (Some e, b) \<Rightarrow> (Some e, set_slots v1 b)
              | (None, b) \<Rightarrow> (None, (set_slots v1 b)\<lparr>m_size := new_size\<rparr>)))
      else (None, v\<lparr>m_size := new_size\<rparr>))"

text \<open>\<^verbatim>\<open>T& EmplaceBack(Args&&... args)\<close>.  \<open>ctor\<close> is the outcome of \<^verbatim>\<open>T(args...)\<close>: the
  exception it throws or the value it constructs.  The result is the offset of
  the element referred to.\<close>
definition EmplaceBack :: "'a env \<Rightarrow> failure + 'a \<Rightarrow> 'a Vector \<Rightarrow> (failure + nat) \<times> 'a Vector" where
  "EmplaceBack env ctor v =
     (if m_size v = Capacity v then
        (case RawMemory_sized env (if m_size v = 0 then 1 else m_size v * 2) of
           Inl e \<Rightarrow> (Inl e, v)
         | Inr new_data \<Rightarrow>
             (case RawMemory_plus new_data (m_size v) of
                Inl e \<Rightarrow> (Inl e, v)
              | Inr p \<Rightarrow>
                  (case ctor of
                     Inl e \<Rightarrow> (Inl e, v)
                   | Inr x \<Rightarrow>
                       (case construct_at (block_of new_data) p x of
                          Inl e \<Rightarrow> (Inl e, v)
                        | Inr nb0 \<Rightarrow>
                            (case relocate_n env (slots v) 0 (m_size v) nb0 0 of
                               (Some e, ob, nb) \<Rightarrow> (Inl e, set_slots v ob)
                             | (None, ob, nb) \<Rightarrow>
                                 (case adopt v ob new_data nb of
                                    (Some e, v1) \<Rightarrow> (Inl e, v1)
                                  | (None, v1) \<Rightarrow>
                                      (let v2 = v1\<lparr>m_size := m_size v1 + 1\<rparr>
                                       in (RawMemory_index (m_data v2) (m_size v2 - 1), v2))))))))
      else
        (case RawMemory_plus (m_data v) (m_size v) of
           Inl e \<Rightarrow> (Inl e, v)
         | Inr p \<Rightarrow>
             (case ctor of
                Inl e \<Rightarrow> (Inl e, v)
              | Inr x \<Rightarrow>
                  (case construct_at (slots v) p x of
                     Inl e \<Rightarrow> (Inl e, v)
                   | Inr b \<Rightarrow>
                       (let v2 = (set_slots v b)\<lparr>m_size := m_size v + 1\<rparr>
                        in (RawMemory_index (m_data v2) (m_size v2 - 1), v2))))))"

text \<open>\<^verbatim>\<open>void PushBack(Type&& value)\<close>: \<open>ctor\<close> is the outcome of copying or moving
  \<open>value\<close> into the new element.\<close>
definition PushBack :: "'a env \<Rightarrow> failure + 'a \<Rightarrow> 'a Vector \<Rightarrow> failure option \<times> 'a Vector" where
  "PushBack env ctor v =
     (case EmplaceBack env ctor v of
        (Inl e, v1) \<Rightarrow> (Some e, v1)
      | (Inr r, v1) \<Rightarrow> (None, v1))"

text \<open>\<^verbatim>\<open>void PopBack()\<close>\<close>
definition PopBack :: "'a Vector \<Rightarrow> failure option \<times> 'a Vector" where
  "PopBack v =
     (case RawMemory_plus (m_data v) (m_size v) of
        Inl e \<Rightarrow> (Some e, v)
      | Inr p \<Rightarrow>
          (if p = 0 then (Some Violation, v)
           else
             (case destroy_n (slots v) (p - 1) 1 of
                (Some e, b) \<Rightarrow> (Some e, set_slots v b)
              | (None, b) \<Rightarrow> (None, (set_slots v b)\<lparr>m_size := m_size v - 1\<rparr>))))"

text \<open>The first \<^verbatim>\<open>if constexpr\<close> of the growing branch of \<^verbatim>\<open>Emplace\<close>: the elements before
  \<open>dis_pos\<close> go to the front of the new block.  In the copying branch an exception is
  caught, the new element is destroyed, and the handler ends without rethrowing.\<close>
definition Emplace_prefix ::
  "'a env \<Rightarrow> 'a block \<Rightarrow> 'a RawMemory \<Rightarrow> 'a block \<Rightarrow> nat \<Rightarrow> failure option \<times> 'a block \<times> 'a block" where
  "Emplace_prefix env ob new_data nb dis_pos =
     (if nothrow_move_constructible env \<or> \<not> copy_constructible env
      then uninitialized_move_n env ob 0 dis_pos nb 0
      else
        (case uninitialized_copy_n env ob 0 dis_pos nb 0 of
           (None, nb1) \<Rightarrow> (None, ob, nb1)
         | (Some e, nb1) \<Rightarrow>
             (if is_exception e then
                (case RawMemory_plus new_data dis_pos of
                   Inl e' \<Rightarrow> (Some e', ob, nb1)
                 | Inr p \<Rightarrow> (case destroy_n nb1 p 1 of (r, nb2) \<Rightarrow> (r, ob, nb2)))
              else (Some e, ob, nb1))))"

text \<open>The second \<^verbatim>\<open>if constexpr\<close>: the elements from \<open>dis_pos\<close> on go behind the new
  element.  The handler destroys the first \<open>dis_pos + 1\<close> slots of the new block and
  ends without rethrowing.\<close>
definition Emplace_suffix ::
  "'a env \<Rightarrow> 'a block \<Rightarrow> 'a block \<Rightarrow> nat \<Rightarrow> nat \<Rightarrow> failure option \<times> 'a block \<times> 'a block" where
  "Emplace_suffix env ob nb dis_pos sz =
     (if nothrow_move_constructible env \<or> \<not> copy_constructible env
      then uninitialized_move_n env ob dis_pos (sz - dis_pos) nb (dis_pos + 1)
      else
        (case uninitialized_copy_n env ob dis_pos (sz - dis_pos) nb (dis_pos + 1) of
           (None, nb1) \<Rightarrow> (None, ob, nb1)
         | (Some e, nb1) \<Rightarrow>
             (if is_exception e then
                (case destroy_n nb1 0 (dis_pos + 1) of (r, nb2) \<Rightarrow> (r, ob, nb2))
              else (Some e, ob, nb1))))"

text \<open>\<^verbatim>\<open>Emplace\<close>, the branch \<^verbatim>\<open>size_ == data_.Capacity()\<close>.\<close>
definition Emplace_grow ::
  "'a env \<Rightarrow> nat \<Rightarrow> failure + 'a \<Rightarrow> 'a Vector \<Rightarrow> (failure + nat) \<times> 'a Vector" where
  "Emplace_grow env pos ctor v =
     (case RawMemory_sized env (if m_size v = 0 then 1 else m_size v * 2) of
        Inl e \<Rightarrow> (Inl e, v)
      | Inr new_data \<Rightarrow>
          (let dis_pos = pos - Vector_begin v in
           (case RawMemory_plus new_data dis_pos of
              Inl e \<Rightarrow> (Inl e, v)
            | Inr p \<Rightarrow>
                (case ctor of
                   Inl e \<Rightarrow> (Inl e, v)
                 | Inr x \<Rightarrow>
                     (case construct_at (block_of new_data) p x of
                        Inl e \<Rightarrow> (Inl e, v)
                      | Inr nb0 \<Rightarrow>
                          (case Emplace_prefix env (slots v) new_data nb0 dis_pos of
                             (Some e, ob1, nb1) \<Rightarrow> (Inl e, set_slots v ob1)
                           | (None, ob1, nb1) \<Rightarrow>
                               (if m_size v < dis_pos then (Inl Violation, set_slots v ob1)
                                else
                                  (case Emplace_suffix env ob1 nb1 dis_pos (m_size v) of
                                     (Some e, ob2, nb2) \<Rightarrow> (Inl e, set_slots v ob2)
                                   | (None, ob2, nb2) \<Rightarrow>
                                       (case adopt v ob2 new_data nb2 of
                                          (Some e, v1) \<Rightarrow> (Inl e, v1)
                                        | (None, v1) \<Rightarrow>
                                            (Inr (Vector_begin v1 + dis_pos),
                                             v1\<lparr>m_size := m_size v1 + 1\<rparr>))))))))))"

text \<open>\<^verbatim>\<open>Emplace\<close>, the last branch: room is left, the tail is shifted in place.\<close>
definition Emplace_shift ::
  "'a env \<Rightarrow> nat \<Rightarrow> failure + 'a \<Rightarrow> 'a Vector \<Rightarrow> (failure + nat) \<times> 'a Vector" where
  "Emplace_shift env pos ctor v =
     (case ctor of
        Inl e \<Rightarrow> (Inl e, v)
      | Inr new_t \<Rightarrow>
          (case RawMemory_plus (m_data v) (m_size v) of
             Inl e \<Rightarrow> (Inl e, v)
           | Inr p \<Rightarrow>
               (if m_size v = 0 then (Inl Violation, v)
                else
                  (case RawMemory_index (m_data v) (m_size v - 1) of
                     Inl e \<Rightarrow> (Inl e, v)
                   | Inr r \<Rightarrow>
                       (case deref (slots v) r of
                          Inl e \<Rightarrow> (Inl e, v)
                        | Inr last_elem \<Rightarrow>
                            (case T_move env last_elem of
                               Inl e \<Rightarrow> (Inl e, v)
                             | Inr (y, last_elem') \<Rightarrow>
                                 (case construct_at ((slots v)[r := Some last_elem']) p y of
                                    Inl e \<Rightarrow> (Inl e, v)
                                  | Inr b1 \<Rightarrow>
                                      (let res_pos = Vector_begin v + (pos - Vector_begin v) in
                                       (case Vector_end v of
                                          Inl e \<Rightarrow> (Inl e, set_slots v b1)
                                        | Inr e \<Rightarrow>
                                            (if e = 0 \<or> e - 1 < res_pos
                                             then (Inl Violation, set_slots v b1)
                                             else
                                               (case std_move_backward env b1 res_pos
                                                       (e - 1 - res_pos) e of
                                                  (Some f, b2) \<Rightarrow> (Inl f, set_slots v b2)
                                                | (None, b2) \<Rightarrow>
                                                    (case deref b2 res_pos of
                                                       Inl f \<Rightarrow> (Inl f, set_slots v b2)
                                                     | Inr old \<Rightarrow>
                                                         (case T_move_assign env old new_t of
                                                            Inl f \<Rightarrow> (Inl f, set_slots v b2)
                                                          | Inr (y', new_t') \<Rightarrow>
                                                              (Inr res_pos,
                                                               (set_slots v (b2[res_pos := Some y']))
                                                                 \<lparr>m_size := m_size v + 1\<rparr>))))))))))))))"

text \<open>\<^verbatim>\<open>iterator Emplace(const_iterator pos, Args&&... args)\<close>\<close>
definition Emplace ::
  "'a env \<Rightarrow> nat \<Rightarrow> failure + 'a \<Rightarrow> 'a Vector \<Rightarrow> (failure + nat) \<times> 'a Vector" where
  "Emplace env pos ctor v =
     (case Vector_end v of
        Inl e \<Rightarrow> (Inl e, v)
      | Inr e \<Rightarrow>
          (if pos = e then EmplaceBack env ctor v
           else if m_size v = m_capacity (m_data v) then Emplace_grow env pos ctor v
           else Emplace_shift env pos ctor v))"

text \<open>\<^verbatim>\<open>iterator Insert(const_iterator pos, Type&& value)\<close>\<close>
definition Insert ::
  "'a env \<Rightarrow> nat \<Rightarrow> failure + 'a \<Rightarrow> 'a Vector \<Rightarrow> (failure + nat) \<times> 'a Vector" where
  "Insert env pos ctor v = Emplace env pos ctor v"

text \<open>\<^verbatim>\<open>iterator Erase(const_iterator pos)\<close>\<close>
definition Erase :: "'a env \<Rightarrow> nat \<Rightarrow> 'a Vector \<Rightarrow> (failure + nat) \<times> 'a Vector" where
  "Erase env pos v =
     (let res_pos = Vector_begin v + (pos - Vector_begin v) in
      (case Vector_end v of
         Inl e \<Rightarrow> (Inl e, v)
       | Inr e \<Rightarrow>
           (if e < res_pos + 1 then (Inl Violation, v)
            else
              (case std_move env (slots v) (res_pos + 1) (e - (res_pos + 1)) res_pos of
                 (Some f, b1) \<Rightarrow> (Inl f, set_slots v b1)
               | (None, b1) \<Rightarrow>
                   (case destroy_n b1 (e - 1) 1 of
                      (Some f, b2) \<Rightarrow> (Inl f, set_slots v b2)
                    | (None, b2) \<Rightarrow> (Inr res_pos, (set_slots v b2)\<lparr>m_size := m_size v - 1\<rparr>))))))"

text \<open>\<^verbatim>\<open>void CopyN(const T* from, T* to, const size_t n)\<close>, with the two blocks the
  pointers run through.\<close>
fun CopyN :: "'a env \<Rightarrow> 'a block \<Rightarrow> nat \<Rightarrow> 'a block \<Rightarrow> nat \<Rightarrow> nat \<Rightarrow> failure option \<times> 'a block" where
  "CopyN env fb from_p tb to_p 0 = (None, tb)"
| "CopyN env fb from_p tb to_p (Suc n) =
     (case deref fb from_p of
        Inl e \<Rightarrow> (Some e, tb)
      | Inr x \<Rightarrow>
          (case deref tb to_p of
             Inl e \<Rightarrow> (Some e, tb)
           | Inr y \<Rightarrow>
               (case T_copy_assign env y x of
                  Inl e \<Rightarrow> (Some e, tb)
                | Inr y' \<Rightarrow> CopyN env fb (Suc from_p) (tb[to_p := Some y']) (Suc to_p) n)))"

text \<open>\<open>this->Swap(local)\<close> where \<open>local\<close> is a local vector of the caller.\<close>
definition Vector_Swap_local :: "'a Vector \<Rightarrow> 'a Vector \<Rightarrow> 'a Vector \<times> 'a Vector" where
  "Vector_Swap_local this_obj local =
     (let st = Vector_Swap (\<lambda>p. if p then this_obj else local) True False
      in (st True, st False))"

text \<open>\<^verbatim>\<open>Vector& operator=(const Vector& rhs)\<close>, on a store of vectors: \<open>this\<close> and \<open>rhs\<close>
  are addresses.\<close>
definition Vector_copy_assign ::
  "'a env \<Rightarrow> ('p \<Rightarrow> 'a Vector) \<Rightarrow> 'p \<Rightarrow> 'p \<Rightarrow> failure option \<times> ('p \<Rightarrow> 'a Vector)" where
  "Vector_copy_assign env st this rhs =
     (if this \<noteq> rhs then
        (if m_size (st rhs) > m_capacity (m_data (st this)) then
           (case Vector_copy env (st rhs) of
              Inl e \<Rightarrow> (Some e, st)
            | Inr rhs_copy \<Rightarrow>
                (let (t, rhs_copy') = Vector_Swap_local (st this) rhs_copy
                 in (fst (Vector_dtor rhs_copy'), st(this := t))))
         else
           (if m_size (st this) > m_size (st rhs) then
              (case CopyN env (slots (st rhs)) 0 (slots (st this)) 0 (m_size (st rhs)) of
                 (Some e, b) \<Rightarrow> (Some e, st(this := set_slots (st this) b))
               | (None, b) \<Rightarrow>
                   (case destroy_n b (m_size (st rhs)) (m_size (st this) - m_size (st rhs)) of
                      (Some e, b') \<Rightarrow> (Some e, st(this := set_slots (st this) b'))
                    | (None, b') \<Rightarrow>
                        (None, st(this := (set_slots (st this) b')\<lparr>m_size := m_size (st rhs)\<rparr>))))
            else
              (case CopyN env (slots (st rhs)) 0 (slots (st this)) 0 (m_size (st this)) of
                 (Some e, b) \<Rightarrow> (Some e, st(this := set_slots (st this) b))
               | (None, b) \<Rightarrow>
                   (case uninitialized_copy_n env (slots (st rhs)) (m_size (st this))
                           (m_size (st rhs) - m_size (st this)) b (m_size (st this)) of
                      (Some e, b') \<Rightarrow> (Some e, st(this := set_slots (st this) b'))
                    | (None, b') \<Rightarrow>
                        (None, st(this := (set_slots (st this) b')\<lparr>m_size := m_size (st rhs)\<rparr>))))))
      else (None, st))"

section \<open>The class invariant and the abstraction to a list\<close>

text \<open>A slot is live when it holds an object.\<close>
definition live :: "'a option \<Rightarrow> bool" where
  "live s = (s \<noteq> None)"

text \<open>The first \<open>m_size\<close> slots are live, the others are raw, and the block has
  \<open>Capacity\<close> slots.\<close>
definition inv :: "'a Vector \<Rightarrow> bool" where
  "inv v =
     (m_size v \<le> Capacity v \<and> length (slots v) = Capacity v
      \<and> list_all live (take (m_size v) (slots v))
      \<and> list_all (\<lambda>s. \<not> live s) (drop (m_size v) (slots v)))"

text \<open>The vector exists in memory: \<open>T\<close> is a complete object type, and the block of
  \<open>Capacity\<close> slots is an object, whose size in bytes is at most \<^verbatim>\<open>PTRDIFF_MAX\<close>, as
  the size of every object is.\<close>
definition in_memory :: "'a env \<Rightarrow> 'a Vector \<Rightarrow> bool" where
  "in_memory env v =
     (0 < sizeof_T env \<and> sizeof_T env < 2 ^ 63 \<and> Capacity v * sizeof_T env < 2 ^ 63)"

text \<open>The values of the live elements, in order of position.\<close>
definition elems :: "'a Vector \<Rightarrow> 'a list" where
  "elems v = map the (take (m_size v) (slots v))"

text \<open>Whether migrating the elements \<open>xs\<close> to a new block throws: the move constructor
  is used when it is \<^verbatim>\<open>noexcept\<close> or the type cannot be copied, the copy constructor
  otherwise.\<close>
definition relocation_throws :: "'a env \<Rightarrow> 'a list \<Rightarrow> bool" where
  "relocation_throws env xs =
     (if nothrow_move_constructible env \<or> \<not> copy_constructible env
      then \<not> nothrow_move_constructible env \<and> list_ex (move_ctor_throws env) xs
      else list_ex (copy_ctor_throws env) xs)"

text \<open>The capacity a full vector of size \<open>n\<close> grows to: \<^verbatim>\<open>n == 0 ? 1 : n * 2\<close>.\<close>
definition grown :: "nat \<Rightarrow> nat" where
  "grown n = (if n = 0 then 1 else n * 2)"

section \<open>Copy assignment as the spec words it\<close>

text \<open>The three-case rule of the spec, written out from its words to be compared with
  \<open>Vector_copy_assign\<close>.  Case 1, \<open>rhs.size > capacity\<close>: build a full temporary copy of
  \<open>rhs\<close> and exchange state with it; the temporary, now holding the old state, is
  destroyed.  Case 2, \<open>rhs.size \<le> size\<close>: overwrite the first \<open>rhs.size\<close> positions by
  assignment, then destroy the trailing elements \<open>[rhs.size, size)\<close>.  Case 3,
  \<open>size < rhs.size \<le> capacity\<close>: overwrite the first \<open>size\<close> positions by assignment,
  then construct the remaining \<open>rhs.size - size\<close> elements in place.  After case 2 or
  3, \<open>size\<close> is set to \<open>rhs.size\<close>.\<close>
definition copy_assign_three_cases ::
  "'a env \<Rightarrow> ('p \<Rightarrow> 'a Vector) \<Rightarrow> 'p \<Rightarrow> 'p \<Rightarrow> failure option \<times> ('p \<Rightarrow> 'a Vector)" where
  "copy_assign_three_cases env st this rhs =
     (if Capacity (st this) < Size (st rhs) then
        (case Vector_copy env (st rhs) of
           Inl e \<Rightarrow> (Some e, st)
         | Inr temporary \<Rightarrow> (fst (Vector_dtor (st this)), st(this := temporary)))
      else if Size (st rhs) \<le> Size (st this) then
        (case CopyN env (slots (st rhs)) 0 (slots (st this)) 0 (Size (st rhs)) of
           (Some e, b) \<Rightarrow> (Some e, st(this := set_slots (st this) b))
         | (None, b) \<Rightarrow>
             (case destroy_n b (Size (st rhs)) (Size (st this) - Size (st rhs)) of
                (Some e, b') \<Rightarrow> (Some e, st(this := set_slots (st this) b'))
              | (None, b') \<Rightarrow>
                  (None, st(this := (set_slots (st this) b')\<lparr>m_size := Size (st rhs)\<rparr>))))
      else
        (case CopyN env (slots (st rhs)) 0 (slots (st this)) 0 (Size (st this)) of
           (Some e, b) \<Rightarrow> (Some e, st(this := set_slots (st this) b))
         | (None, b) \<Rightarrow>
             (case uninitialized_copy_n env (slots (st rhs)) (Size (st this))
                     (Size (st rhs) - Size (st this)) b (Size (st this)) of
                (Some e, b') \<Rightarrow> (Some e, st(this := set_slots (st this) b'))
              | (None, b') \<Rightarrow>
                  (None, st(this := (set_slots (st this) b')\<lparr>m_size := Size (st rhs)\<rparr>)))))"

section \<open>Concrete element types and vectors\<close>

text \<open>An element type like \<^verbatim>\<open>int\<close>: nothing throws, a moved-from object keeps its
  value, and an object takes four bytes.\<close>
definition int_elem :: "int env" where
  "int_elem =
     \<lparr>nothrow_move_constructible = True, copy_constructible = True,
      copy_ctor_throws = (\<lambda>x. False), move_ctor_throws = (\<lambda>x. False),
      copy_assign_throws = (\<lambda>x y. False), move_assign_throws = (\<lambda>x y. False),
      moved_from = (\<lambda>x. x), value_init = Inr 0, new_fails = (\<lambda>n. False),
      sizeof_T = 4\<rparr>"

text \<open>A copyable element type whose move constructor is not \<^verbatim>\<open>noexcept\<close> and whose copy
  constructor throws when the source holds \<open>1\<close>; a moved-from object holds \<open>0\<close>.\<close>
definition throwing_elem :: "int env" where
  "throwing_elem =
     \<lparr>nothrow_move_constructible = False, copy_constructible = True,
      copy_ctor_throws = (\<lambda>x. x = 1), move_ctor_throws = (\<lambda>x. False),
      copy_assign_throws = (\<lambda>x y. False), move_assign_throws = (\<lambda>x y. False),
      moved_from = (\<lambda>x. 0), value_init = Inr 0, new_fails = (\<lambda>n. False),
      sizeof_T = 4\<rparr>"

text \<open>The vector with live elements \<open>xs\<close> in a block of \<open>c\<close> slots.\<close>
definition vector_of :: "'a list \<Rightarrow> nat \<Rightarrow> 'a Vector" where
  "vector_of xs c =
     \<lparr>m_data =
        \<lparr>m_buffer = (if c = 0 then None else Some (map Some xs @ replicate (c - length xs) None)),
         m_capacity = c\<rparr>,
      m_size = length xs\<rparr>"

text \<open>Two vectors at the addresses \<open>True\<close> and \<open>False\<close>, and their storages.\<close>
definition two_vectors :: "bool \<Rightarrow> int Vector" where
  "two_vectors p = (if p then vector_of [1, 2] 2 else vector_of [9, 9, 9] 4)"

definition two_storages :: "bool \<Rightarrow> int RawMemory" where
  "two_storages p = m_data (two_vectors p)"

section \<open>Facts about the steps and the algorithms\<close>

lemma deref_Inr: "(deref b p = Inr x) = (p < length b \<and> b ! p = Some x)"
  by (auto simp: deref_def split: option.splits)

lemma construct_at_Inr: "(construct_at b p x = Inr b') = (p < length b \<and> b' = b[p := Some x])"
  by (auto simp: construct_at_def)

lemma T_copy_Inr: "(T_copy env x = Inr y) = (\<not> copy_ctor_throws env x \<and> y = x)"
  by (auto simp: T_copy_def)

lemma T_move_Inr:
  "(T_move env x = Inr (y, x'))
     = ((nothrow_move_constructible env \<or> \<not> move_ctor_throws env x) \<and> y = x \<and> x' = moved_from env x)"
  by (auto simp: T_move_def)

lemma T_copy_assign_Inr: "(T_copy_assign env y x = Inr y') = (\<not> copy_assign_throws env y x \<and> y' = x)"
  by (auto simp: T_copy_assign_def)

lemma T_move_assign_Inr:
  "(T_move_assign env y x = Inr (y', x'))
     = (\<not> move_assign_throws env y x \<and> y' = x \<and> x' = moved_from env x)"
  by (auto simp: T_move_assign_def)

lemmas step_simps = deref_Inr construct_at_Inr T_copy_Inr T_move_Inr T_copy_assign_Inr T_move_assign_Inr

lemma destroy_n_length: "destroy_n b p n = (r, b') \<Longrightarrow> length b' = length b"
  by (induction n arbitrary: b p) (auto split: sum.splits)

lemma destroy_n_ok:
  "destroy_n b p n = (None, b') \<Longrightarrow>
     b' = take p b @ replicate n None @ drop (p + n) b \<and> (n = 0 \<or> p + n \<le> length b)"
proof (induction n arbitrary: b p)
  case 0
  then show ?case by simp
next
  case (Suc n)
  from Suc.prems obtain x where x: "p < length b" "b ! p = Some x"
    and rec: "destroy_n (b[p := None]) (Suc p) n = (None, b')"
    by (auto split: sum.splits simp: step_simps)
  from Suc.IH [OF rec] x show ?case
    by (auto simp: upd_conv_take_nth_drop replicate_app_Cons_same add.commute)
qed

lemma uninitialized_copy_n_length:
  "uninitialized_copy_n env src s n dst d = (r, dst') \<Longrightarrow> length dst' = length dst"
proof (induction n arbitrary: s dst d r dst')
  case 0
  then show ?case by simp
next
  case (Suc n)
  then show ?case
    by (fastforce split: sum.splits prod.splits option.splits simp: step_simps unwind_def)
qed

lemma uninitialized_copy_n_ok:
  "uninitialized_copy_n env src s n dst d = (None, dst') \<Longrightarrow>
     dst' = take d dst @ take n (drop s src) @ drop (d + n) dst
     \<and> (n = 0 \<or> s + n \<le> length src \<and> d + n \<le> length dst)"
proof (induction n arbitrary: s dst d)
  case 0
  then show ?case by simp
next
  case (Suc n)
  from Suc.prems obtain x where x: "s < length src" "src ! s = Some x" "d < length dst"
    and rec: "uninitialized_copy_n env src (Suc s) n (dst[d := Some x]) (Suc d) = (None, dst')"
    by (auto split: sum.splits prod.splits option.splits simp: step_simps)
  from Suc.IH [OF rec] x show ?case
    by (auto simp: take_Suc_conv_app_nth Cons_nth_drop_Suc [symmetric])
qed

lemma uninitialized_move_n_length:
  "uninitialized_move_n env src s n dst d = (r, src', dst') \<Longrightarrow>
     length src' = length src \<and> length dst' = length dst"
proof (induction n arbitrary: src s dst d r src' dst')
  case 0
  then show ?case by simp
next
  case (Suc n)
  then show ?case
    by (fastforce split: sum.splits prod.splits option.splits simp: step_simps unwind_def)
qed

lemma uninitialized_move_n_ok:
  "uninitialized_move_n env src s n dst d = (None, src', dst') \<Longrightarrow>
     dst' = take d dst @ take n (drop s src) @ drop (d + n) dst
     \<and> src' = take s src @ map (map_option (moved_from env)) (take n (drop s src)) @ drop (s + n) src
     \<and> (n = 0 \<or> s + n \<le> length src \<and> d + n \<le> length dst)"
proof (induction n arbitrary: src s dst d)
  case 0
  then show ?case by simp
next
  case (Suc n)
  from Suc.prems obtain x where x: "s < length src" "src ! s = Some x" "d < length dst"
    and rec: "uninitialized_move_n env (src[s := Some (moved_from env x)]) (Suc s) n
                (dst[d := Some x]) (Suc d) = (None, src', dst')"
    by (auto split: sum.splits prod.splits option.splits simp: step_simps)
  from Suc.IH [OF rec] x show ?case
    by (auto simp: take_Suc_conv_app_nth Cons_nth_drop_Suc [symmetric] upd_conv_take_nth_drop add.commute)
qed

text \<open>the source keeps its live slots live and its raw slots raw, whatever the outcome\<close>
lemma uninitialized_move_n_live:
  "uninitialized_move_n env src s n dst d = (r, src', dst') \<Longrightarrow> map live src' = map live src"
proof (induction n arbitrary: src s dst d r src' dst')
  case 0
  then show ?case by simp
next
  case (Suc n)
  show ?case
  proof (cases "\<exists>x y x' dst1. deref src s = Inr x \<and> T_move env x = Inr (y, x') \<and> construct_at dst d y = Inr dst1")
    case False
    with Suc.prems show ?thesis
      by (auto split: sum.splits prod.splits option.splits)
  next
    case True
    then obtain x where x: "s < length src" "src ! s = Some x" "d < length dst"
       "T_move env x = Inr (x, moved_from env x)"
      by (auto simp: step_simps)
    with Suc.prems obtain r2 dst2 where
      rec: "uninitialized_move_n env (src[s := Some (moved_from env x)]) (Suc s) n
                (dst[d := Some x]) (Suc d) = (r2, src', dst2)"
      by (auto split: sum.splits prod.splits option.splits simp: deref_def construct_at_def)
    from Suc.IH [OF rec] x show ?thesis
      by (simp add: map_update live_def list_update_same_conv)
  qed
qed

lemma destroy_n_live:
  "p + n \<le> length b \<Longrightarrow> list_all live (take n (drop p b)) \<Longrightarrow>
     destroy_n b p n = (None, take p b @ replicate n None @ drop (p + n) b)"
proof (induction n arbitrary: b p)
  case 0
  then show ?case by simp
next
  case (Suc n)
  from Suc.prems obtain x where x: "p < length b" "b ! p = Some x"
    by (cases "b ! p") (auto simp: take_Suc_conv_app_nth Cons_nth_drop_Suc [symmetric] live_def)
  from Suc.prems have "list_all live (take n (drop (Suc p) (b[p := None])))"
    by (simp add: Cons_nth_drop_Suc [symmetric] x)
  with Suc.IH [of "Suc p" "b[p := None]"] Suc.prems x show ?case
    by (simp add: deref_def upd_conv_take_nth_drop replicate_app_Cons_same add.commute)
qed

text \<open>the outcome of the two uninitialized-memory algorithms on live sources\<close>
lemma uninitialized_copy_n_outcome:
  "s + n \<le> length src \<Longrightarrow> d + n \<le> length dst \<Longrightarrow> list_all live (take n (drop s src)) \<Longrightarrow>
     fst (uninitialized_copy_n env src s n dst d)
       = (if list_ex (copy_ctor_throws env) (map the (take n (drop s src))) then Some ElemThrow else None)"
proof (induction n arbitrary: s dst d)
  case 0
  then show ?case by simp
next
  case (Suc n)
  from Suc.prems obtain x where x: "s < length src" "src ! s = Some x" "d < length dst"
    by (cases "src ! s") (auto simp: Cons_nth_drop_Suc [symmetric] live_def)
  from Suc.prems x have tl: "list_all live (take n (drop (Suc s) src))"
    by (simp add: Cons_nth_drop_Suc [symmetric])
  have "fst (uninitialized_copy_n env src (Suc s) n (dst[d := Some x]) (Suc d))
       = (if list_ex (copy_ctor_throws env) (map the (take n (drop (Suc s) src)))
          then Some ElemThrow else None)"
    using Suc.prems tl by (intro Suc.IH) simp_all
  with x show ?case
    by (auto simp: deref_def construct_at_def T_copy_def Cons_nth_drop_Suc [symmetric]
        split: prod.splits option.splits if_splits)
qed

lemma uninitialized_move_n_outcome:
  "s + n \<le> length src \<Longrightarrow> d + n \<le> length dst \<Longrightarrow> list_all live (take n (drop s src)) \<Longrightarrow>
     fst (uninitialized_move_n env src s n dst d)
       = (if \<not> nothrow_move_constructible env
             \<and> list_ex (move_ctor_throws env) (map the (take n (drop s src)))
          then Some ElemThrow else None)"
proof (induction n arbitrary: src s dst d)
  case 0
  then show ?case by simp
next
  case (Suc n)
  from Suc.prems obtain x where x: "s < length src" "src ! s = Some x" "d < length dst"
    by (cases "src ! s") (auto simp: Cons_nth_drop_Suc [symmetric] live_def)
  from Suc.prems x have tl: "list_all live (take n (drop (Suc s) src))"
    by (simp add: Cons_nth_drop_Suc [symmetric])
  have "fst (uninitialized_move_n env (src[s := Some (moved_from env x)]) (Suc s) n
               (dst[d := Some x]) (Suc d))
       = (if \<not> nothrow_move_constructible env
             \<and> list_ex (move_ctor_throws env)
                 (map the (take n (drop (Suc s) (src[s := Some (moved_from env x)]))))
          then Some ElemThrow else None)"
    using Suc.prems tl by (intro Suc.IH) simp_all
  with x show ?case
    by (auto simp: deref_def construct_at_def T_move_def Cons_nth_drop_Suc [symmetric]
        split: prod.splits option.splits if_splits)
qed

section \<open>Swap and the assignments\<close>

lemma std_swap_eq: "std_swap m a b = m(a := m b, b := m a)"
  by (simp add: std_swap_def Let_def)

lemma RawMemory_Swap_eq: "RawMemory_Swap rs this other = rs(this := rs other, other := rs this)"
  by (rule ext) (simp add: RawMemory_Swap_def std_swap_eq Let_def)

lemma Vector_Swap_eq: "Vector_Swap st this other = st(this := st other, other := st this)"
  by (rule ext) (simp add: Vector_Swap_def std_swap_eq RawMemory_Swap_eq Let_def)

lemma RawMemory_Swap_local_eq: "RawMemory_Swap_local a b = (b, a)"
  by (simp add: RawMemory_Swap_local_def RawMemory_Swap_eq Let_def)

lemma Vector_Swap_local_eq: "Vector_Swap_local a b = (b, a)"
  by (simp add: Vector_Swap_local_def Vector_Swap_eq Let_def)

section \<open>Facts about blocks, the invariant and the migration steps\<close>

text \<open>The byte count evaluates over \<open>int\<close>, whose numerals are binary.\<close>
lemma alloc_bytes_code [code]:
  "alloc_bytes env n = nat ((int n * int (sizeof_T env)) mod 18446744073709551616)"
  by (simp add: alloc_bytes_def nat_mod_distrib nat_mult_distrib)

lemma alloc_slots_id:
  "0 < sizeof_T env \<Longrightarrow> n * sizeof_T env < 2 ^ 64 \<Longrightarrow> alloc_slots env n = n"
  by (simp add: alloc_slots_def alloc_bytes_def)

lemma alloc_slots_le: "alloc_slots env n \<le> n"
proof (cases "sizeof_T env = 0")
  case True
  then show ?thesis by (simp add: alloc_slots_def)
next
  case False
  have "alloc_bytes env n div sizeof_T env \<le> (n * sizeof_T env) div sizeof_T env"
    unfolding alloc_bytes_def by (intro div_le_mono mod_less_eq_dividend)
  with False show ?thesis by (simp add: alloc_slots_def)
qed

lemma in_memory_size:
  assumes "in_memory env v" "m_size v \<le> Capacity v"
  shows "alloc_slots env (m_size v) = m_size v"
proof -
  from assms(2) have "m_size v * sizeof_T env \<le> Capacity v * sizeof_T env"
    by simp
  also from assms(1) have "\<dots> < 2 ^ 63" by (simp add: in_memory_def)
  also have "\<dots> < (2 ^ 64 :: nat)" by simp
  finally show ?thesis
    using assms(1) by (intro alloc_slots_id) (simp_all add: in_memory_def)
qed

lemma in_memory_grown:
  assumes "in_memory env v" "m_size v = Capacity v"
  shows "alloc_slots env (grown (m_size v)) = grown (m_size v)"
proof -
  from assms have "grown (m_size v) * sizeof_T env < 2 * 2 ^ 63"
    by (auto simp: in_memory_def grown_def)
  then have "grown (m_size v) * sizeof_T env < 2 ^ 64" by simp
  with assms(1) show ?thesis
    by (intro alloc_slots_id) (simp_all add: in_memory_def)
qed

lemma RawMemory_sized_Inr:
  "(RawMemory_sized env c = Inr nd)
     = ((c = 0 \<or> \<not> new_fails env c)
        \<and> nd = \<lparr>m_buffer = (if c = 0 then None else Some (replicate (alloc_slots env c) None)),
                 m_capacity = c\<rparr>)"
  by (auto simp: RawMemory_sized_def Allocate_def)

lemma RawMemory_sized_Inl:
  "(RawMemory_sized env c = Inl e) = (c \<noteq> 0 \<and> new_fails env c \<and> e = BadAlloc)"
  by (auto simp: RawMemory_sized_def Allocate_def)

lemma block_of_set_block:
  "length b = length (block_of raw) \<Longrightarrow> block_of (set_block raw b) = b"
  by (auto simp: block_of_def set_block_def split: option.splits)

lemma m_capacity_set_block [simp]: "m_capacity (set_block raw b) = m_capacity raw"
  by (simp add: set_block_def)

lemma slots_set_slots: "length b = length (slots v) \<Longrightarrow> slots (set_slots v b) = b"
  by (simp add: slots_def set_slots_def block_of_set_block)

lemma Capacity_set_slots [simp]: "Capacity (set_slots v b) = Capacity v"
  by (simp add: Capacity_def set_slots_def)

lemma m_size_set_slots [simp]: "m_size (set_slots v b) = m_size v"
  by (simp add: set_slots_def)

lemma inv_iff:
  "inv v = (m_size v \<le> Capacity v \<and> length (slots v) = Capacity v
      \<and> list_all live (take (m_size v) (slots v))
      \<and> drop (m_size v) (slots v) = replicate (Capacity v - m_size v) None)"
proof -
  have "list_all (\<lambda>s. s = None) xs = (xs = replicate (length xs) None)" for xs :: "'a option list"
    by (induction xs) auto
  from this [of "drop (m_size v) (slots v)"] show ?thesis
    unfolding inv_def live_def by auto
qed

lemma relocate_n_cases:
  "relocate_n env src s n dst d = (r, ob, nb) \<Longrightarrow>
     ((nothrow_move_constructible env \<or> \<not> copy_constructible env)
        \<and> uninitialized_move_n env src s n dst d = (r, ob, nb))
     \<or> (\<not> (nothrow_move_constructible env \<or> \<not> copy_constructible env)
        \<and> ob = src \<and> uninitialized_copy_n env src s n dst d = (r, nb))"
  by (cases "uninitialized_copy_n env src s n dst d") (auto simp: relocate_n_def split: if_splits)

lemma relocate_n_length:
  assumes "relocate_n env src s n dst d = (r, ob, nb)"
  shows "length ob = length src \<and> length nb = length dst"
  using relocate_n_cases [OF assms] uninitialized_move_n_length [of env src s n dst d r ob nb]
    uninitialized_copy_n_length [of env src s n dst d r nb]
  by blast

lemma relocate_n_live:
  assumes "relocate_n env src s n dst d = (r, ob, nb)"
  shows "map live ob = map live src"
  using relocate_n_cases [OF assms] uninitialized_move_n_live [of env src s n dst d r ob nb]
  by blast

lemma relocate_n_ok:
  assumes "relocate_n env src s n dst d = (None, ob, nb)"
  shows "nb = take d dst @ take n (drop s src) @ drop (d + n) dst"
  using relocate_n_cases [OF assms] uninitialized_move_n_ok [of env src s n dst d ob nb]
    uninitialized_copy_n_ok [of env src s n dst d nb]
  by blast

lemma relocate_n_outcome:
  "s + n \<le> length src \<Longrightarrow> d + n \<le> length dst \<Longrightarrow> list_all live (take n (drop s src)) \<Longrightarrow>
     fst (relocate_n env src s n dst d)
       = (if relocation_throws env (map the (take n (drop s src))) then Some ElemThrow else None)"
  by (simp add: relocate_n_def relocation_throws_def uninitialized_move_n_outcome
      uninitialized_copy_n_outcome split_beta)

lemma list_all_live_cong: "map live xs = map live ys \<Longrightarrow> list_all live (take n xs) = list_all live (take n ys)"
proof -
  assume a: "map live xs = map live ys"
  have "list_all live (take n xs) = list_all id (take n (map live xs))"
    by (simp add: list_all_iff take_map)
  also have "\<dots> = list_all id (take n (map live ys))" by (simp add: a)
  also have "\<dots> = list_all live (take n ys)" by (simp add: list_all_iff take_map)
  finally show ?thesis .
qed

lemma adopt_ok:
  "m_size v \<le> length ob \<Longrightarrow> list_all live (take (m_size v) ob) \<Longrightarrow>
     adopt v ob nd nb = (None, v\<lparr>m_data := set_block nd nb\<rparr>)"
  using destroy_n_live [of 0 "m_size v" ob]
  by (simp add: adopt_def RawMemory_Swap_local_eq)


section \<open>Move assignment\<close>

text \<open>
  Claim C1, as the code has it.  Move-assignment of a \<^verbatim>\<open>RawMemory\<close> and of a \<^verbatim>\<open>Vector\<close> is
  \<^verbatim>\<open>Swap\<close>: the target ends with the state the source had and the source ends with
  the state the target had.  So the source ends in the empty state (null pointer
  and capacity 0; capacity 0 and size 0) exactly when the target was in the empty
  state before the assignment.
\<close>
theorem move_assign_exchanges:
  "RawMemory_move_assign rs this rhs = rs(this := rs rhs, rhs := rs this)
   \<and> Vector_move_assign st this rhs = st(this := st rhs, rhs := st this)
   \<and> (RawMemory_move_assign rs this rhs rhs = RawMemory_default) = (rs this = RawMemory_default)
   \<and> (Vector_move_assign st this rhs rhs = Vector_default) = (st this = Vector_default)"
  by (simp add: RawMemory_move_assign_def Vector_move_assign_def RawMemory_Swap_eq Vector_Swap_eq)

theorem move_assign_exchanges_witness:
  "Vector_move_assign two_vectors True False True = vector_of [9, 9, 9] 4
   \<and> Vector_move_assign two_vectors True False False = vector_of [1, 2] 2
   \<and> RawMemory_move_assign two_storages True False False = m_data (vector_of [1, 2] 2)"
  using move_assign_exchanges [of two_storages True False two_vectors]
  by (simp add: two_vectors_def two_storages_def)

text \<open>
  Claim C1, as the spec states it, fails: move-assigning the vector \<open>[9, 9, 9]\<close> of
  capacity 4 into the vector \<open>[1, 2]\<close> of capacity 2 leaves the source with size 2
  and capacity 2 and a block, not in the empty state.
\<close>
theorem move_assign_source_not_empty:
  "\<not> (m_size (Vector_move_assign two_vectors True False False) = 0
        \<and> Capacity (Vector_move_assign two_vectors True False False) = 0)
   \<and> \<not> (m_buffer (RawMemory_move_assign two_storages True False False) = None
        \<and> m_capacity (RawMemory_move_assign two_storages True False False) = 0)"
  by (simp add: RawMemory_move_assign_def Vector_move_assign_def RawMemory_Swap_eq Vector_Swap_eq
      two_vectors_def two_storages_def vector_of_def Capacity_def)

text \<open>
  Claim C10.  Copy-assigning a vector to itself changes nothing: the store is as it
  was, so the vector has the same size, the same capacity and the same elements.
\<close>
theorem self_copy_assign:
  "Vector_copy_assign env st this this = (None, st)"
  by (simp add: Vector_copy_assign_def)

theorem self_copy_assign_witness:
  "Vector_copy_assign throwing_elem two_vectors True True = (None, two_vectors)
   \<and> Size (snd (Vector_copy_assign throwing_elem two_vectors True True) True) = 2"
  using self_copy_assign [of throwing_elem two_vectors True]
  by (simp add: two_vectors_def vector_of_def Size_def)

section \<open>Append when the new element cannot be constructed\<close>

text \<open>
  Claim C4.  When \<open>size = capacity\<close> and the constructor of the new element throws
  \<open>e\<close>, \<^verbatim>\<open>EmplaceBack\<close> leaves the vector exactly as it was (same size, same capacity,
  same block contents) and the call ends with \<open>e\<close>; if the allocation of the new
  block fails before that, the call ends with \<^verbatim>\<open>bad_alloc\<close> and the vector is
  unchanged as well.
\<close>
theorem EmplaceBack_ctor_fails:
  assumes "m_size v = Capacity v"
  shows "snd (EmplaceBack env (Inl e) v) = v
     \<and> fst (EmplaceBack env (Inl e) v)
         = Inl (if new_fails env (if m_size v = 0 then 1 else m_size v * 2) then BadAlloc else e)"
  using assms
  by (simp add: EmplaceBack_def RawMemory_sized_def Allocate_def RawMemory_plus_def)

theorem EmplaceBack_ctor_fails_witness:
  "m_size (vector_of [1, 2, 3 :: int] 3) = Capacity (vector_of [1, 2, 3 :: int] 3)
   \<and> snd (EmplaceBack throwing_elem (Inl ElemThrow) (vector_of [1, 2, 3] 3)) = vector_of [1, 2, 3] 3
   \<and> fst (EmplaceBack throwing_elem (Inl ElemThrow) (vector_of [1, 2, 3] 3)) = Inl ElemThrow
   \<and> elems (snd (EmplaceBack throwing_elem (Inl ElemThrow) (vector_of [1, 2, 3] 3))) = [1, 2, 3]"
  using EmplaceBack_ctor_fails [of "vector_of [1, 2, 3 :: int] 3" throwing_elem ElemThrow]
  by (simp add: vector_of_def Capacity_def throwing_elem_def elems_def slots_def block_of_def)

section \<open>The growing branch of Emplace when a copy throws\<close>

text \<open>
  Claim C2 at a concrete input.  The vector \<open>[1, 2]\<close> is full, the element type copies
  on reallocation, and its copy constructor throws on the element \<open>1\<close>.  Inserting
  \<open>99\<close> at position 1 copies the prefix \<open>[1]\<close> into the new block, which throws; yet
  \<^verbatim>\<open>Emplace\<close> returns normally, with position 1.
\<close>
theorem Emplace_swallows_copy_failure:
  "fst (uninitialized_copy_n throwing_elem (slots (vector_of [1, 2] 2)) 0 1
          [None, Some 99, None, None] 0) = Some ElemThrow
   \<and> fst (Emplace throwing_elem 1 (Inr 99) (vector_of [1, 2] 2)) = Inr 1"
  by code_simp

text \<open>
  Claim C3 at the same input.  The vector satisfies the invariant before the call.
  After the call its size is 3, but of the first three slots only the last is live:
  the elements \<open>1\<close> and \<open>99\<close> are gone, and the invariant does not hold.
\<close>
theorem Emplace_breaks_invariant:
  "inv (vector_of [1, 2 :: int] 2)
   \<and> snd (Emplace throwing_elem 1 (Inr 99) (vector_of [1, 2] 2))
       = \<lparr>m_data = \<lparr>m_buffer = Some [None, None, Some 2, None], m_capacity = 4\<rparr>, m_size = 3\<rparr>
   \<and> \<not> inv (snd (Emplace throwing_elem 1 (Inr 99) (vector_of [1, 2] 2)))"
  by code_simp

section \<open>Reserve\<close>









section \<open>EmplaceBack\<close>

lemma inv_length: "inv v \<Longrightarrow> length (slots v) = Capacity v"
  by (simp add: inv_iff)

lemma inv_le: "inv v \<Longrightarrow> m_size v \<le> Capacity v"
  by (simp add: inv_iff)

lemma inv_live: "inv v \<Longrightarrow> list_all live (take (m_size v) (slots v))"
  by (simp add: inv_iff)

lemma inv_raw: "inv v \<Longrightarrow> drop (m_size v) (slots v) = replicate (Capacity v - m_size v) None"
  by (simp add: inv_iff)

lemma RawMemory_plus_Inr: "(RawMemory_plus raw off = Inr p) = (off \<le> m_capacity raw \<and> p = off)"
  by (auto simp: RawMemory_plus_def)

lemma RawMemory_index_Inr: "(RawMemory_index raw i = Inr r) = (i < m_capacity raw \<and> r = i)"
  by (auto simp: RawMemory_index_def)

lemma EmplaceBack_room_eq:
  assumes "inv v" "m_size v < Capacity v"
  shows "EmplaceBack env (Inr x) v
     = (Inr (m_size v), (set_slots v ((slots v)[m_size v := Some x]))\<lparr>m_size := Suc (m_size v)\<rparr>)"
  using assms inv_length [OF assms(1)]
  by (simp add: EmplaceBack_def RawMemory_plus_def construct_at_def RawMemory_index_def
      set_slots_def Capacity_def)

lemma EmplaceBack_room_fail:
  assumes "inv v" "m_size v < Capacity v"
  shows "EmplaceBack env (Inl e) v = (Inl e, v)"
  using assms
  by (simp add: EmplaceBack_def RawMemory_plus_def Capacity_def)

lemma EmplaceBack_grow_outcome:
  assumes "inv v" "m_size v = Capacity v" "alloc_slots env (grown (m_size v)) = grown (m_size v)"
  shows "fst (EmplaceBack env ctor v)
     = (if new_fails env (grown (m_size v)) then Inl BadAlloc
        else case ctor of
               Inl e \<Rightarrow> Inl e
             | Inr x \<Rightarrow> if relocation_throws env (elems v) then Inl ElemThrow else Inr (m_size v))"
   and "\<not> new_fails env (grown (m_size v)) \<Longrightarrow> \<not> relocation_throws env (elems v) \<Longrightarrow> ctor = Inr x \<Longrightarrow>
      snd (EmplaceBack env ctor v)
        = \<lparr>m_data = \<lparr>m_buffer = Some (slots v @ Some x # replicate (grown (m_size v) - Suc (m_size v)) None),
                     m_capacity = grown (m_size v)\<rparr>,
           m_size = Suc (m_size v)\<rparr>"
proof -
  define nc where "nc = grown (m_size v)"
  define nd :: "'a RawMemory" where "nd = \<lparr>m_buffer = Some (replicate nc None), m_capacity = nc\<rparr>"
  have nc: "m_size v < nc" "nc \<noteq> 0" by (auto simp: nc_def grown_def)
  have nc_eq: "(if m_size v = 0 then 1 else m_size v * 2) = nc" by (simp add: nc_def grown_def)
  note EB = EmplaceBack_def [of env ctor v, unfolded if_P [OF assms(2)] nc_eq]
  from assms(1,2) nc have str: "m_size v \<le> length (slots v)" "length (slots v) = m_size v"
    "list_all live (take (m_size v) (slots v))"
    by (auto simp: inv_iff)
  from assms(3) have fits: "alloc_slots env nc = nc"
    by (simp add: nc_def)
  have "fst (EmplaceBack env ctor v)
     = (if new_fails env nc then Inl BadAlloc
        else case ctor of
               Inl e \<Rightarrow> Inl e
             | Inr x \<Rightarrow> if relocation_throws env (elems v) then Inl ElemThrow else Inr (m_size v))
     \<and> (\<not> new_fails env nc \<longrightarrow> \<not> relocation_throws env (elems v) \<longrightarrow> ctor = Inr x \<longrightarrow>
      snd (EmplaceBack env ctor v)
        = \<lparr>m_data = \<lparr>m_buffer = Some (slots v @ Some x # replicate (nc - Suc (m_size v)) None),
                     m_capacity = nc\<rparr>,
           m_size = Suc (m_size v)\<rparr>)"
  proof (cases "new_fails env nc")
    case True
    with nc show ?thesis
      unfolding EB by (simp add: RawMemory_sized_def Allocate_def)
  next
    case False
    with nc fits have nd: "RawMemory_sized env nc = Inr nd"
      by (simp add: RawMemory_sized_Inr nd_def)
    have plus: "RawMemory_plus nd (m_size v) = Inr (m_size v)"
      using nc by (simp add: RawMemory_plus_def nd_def)
    show ?thesis
    proof (cases ctor)
      case (Inl e)
      with nd False plus show ?thesis
        unfolding EB by simp
    next
      case (Inr y)
      define nb0 where "nb0 = (replicate nc (None :: 'a option))[m_size v := Some y]"
      have con: "construct_at (block_of nd) (m_size v) y = Inr nb0"
        using nc by (simp add: construct_at_def block_of_def nd_def nb0_def)
      obtain r ob nb where rel: "relocate_n env (slots v) 0 (m_size v) nb0 0 = (r, ob, nb)"
        by (cases "relocate_n env (slots v) 0 (m_size v) nb0 0") auto
      from nc have len0: "m_size v \<le> length nb0"
        by (simp add: nb0_def)
      from relocate_n_outcome [of 0 "m_size v" "slots v" 0 nb0 env] str len0 rel
      have r: "r = (if relocation_throws env (elems v) then Some ElemThrow else None)"
        by (simp add: elems_def)
      from relocate_n_length [OF rel] list_all_live_cong [OF relocate_n_live [OF rel], of "m_size v"] str
      have ob: "m_size v \<le> length ob" "list_all live (take (m_size v) ob)"
        by simp_all
      have idx: "RawMemory_index (set_block nd nb) (m_size v) = Inr (m_size v)"
        using nc by (simp add: RawMemory_index_def nd_def)
      have nb: "r = None \<Longrightarrow> nb = slots v @ Some y # replicate (nc - Suc (m_size v)) None"
        using relocate_n_ok [of env "slots v" 0 "m_size v" nb0 0 ob nb] rel str nc
        by (simp add: nb0_def drop_update_cancel Cons_nth_drop_Suc [symmetric])
      show ?thesis
      proof (cases "relocation_throws env (elems v)")
        case True
        with nd False plus Inr con rel r show ?thesis
          unfolding EB by simp
      next
        case nothrow: False
        with r nb have "r = None" "nb = slots v @ Some y # replicate (nc - Suc (m_size v)) None"
          by simp_all
        with nd False plus Inr con rel adopt_ok [OF ob, of nd nb] idx nothrow show ?thesis
          unfolding EB by (auto simp: set_block_def nd_def)
      qed
    qed
  qed
  then show "fst (EmplaceBack env ctor v)
     = (if new_fails env (grown (m_size v)) then Inl BadAlloc
        else case ctor of
               Inl e \<Rightarrow> Inl e
             | Inr x \<Rightarrow> if relocation_throws env (elems v) then Inl ElemThrow else Inr (m_size v))"
   and "\<not> new_fails env (grown (m_size v)) \<Longrightarrow> \<not> relocation_throws env (elems v) \<Longrightarrow> ctor = Inr x \<Longrightarrow>
      snd (EmplaceBack env ctor v)
        = \<lparr>m_data = \<lparr>m_buffer = Some (slots v @ Some x # replicate (grown (m_size v) - Suc (m_size v)) None),
                     m_capacity = grown (m_size v)\<rparr>,
           m_size = Suc (m_size v)\<rparr>"
    by (simp_all add: nc_def)
qed


lemma slots_m_size_update [simp]: "slots (v\<lparr>m_size := n\<rparr>) = slots v"
  by (simp add: slots_def)

lemma Capacity_m_size_update [simp]: "Capacity (v\<lparr>m_size := n\<rparr>) = Capacity v"
  by (simp add: Capacity_def)

lemma grown_max: "grown n = max 1 (2 * n)"
  by (simp add: grown_def max_def)

lemma EmplaceBack_room_ok:
  fixes env :: "'a env" and x :: 'a
  assumes "inv v" "m_size v < Capacity v"
  defines "v' \<equiv> snd (EmplaceBack env (Inr x) v)"
  shows "m_size v' = Suc (m_size v) \<and> elems v' = elems v @ [x] \<and> slots v' ! m_size v = Some x
     \<and> Capacity v' = Capacity v \<and> inv v'"
proof -
  have v': "v' = (set_slots v ((slots v)[m_size v := Some x]))\<lparr>m_size := Suc (m_size v)\<rparr>"
    by (simp add: v'_def EmplaceBack_room_eq [OF assms(1,2)])
  from assms have len: "length (slots v) = Capacity v" and live: "list_all live (take (m_size v) (slots v))"
    and raw: "drop (m_size v) (slots v) = replicate (Capacity v - m_size v) None"
    by (simp_all add: inv_iff)
  have sl: "slots v' = (slots v)[m_size v := Some x]"
    by (simp add: v' slots_set_slots)
  have sz: "m_size v' = Suc (m_size v)" "Capacity v' = Capacity v"
    by (simp_all add: v')
  have "drop (Suc (m_size v)) (slots v) = tl (drop (m_size v) (slots v))"
    by (simp add: drop_Suc tl_drop)
  with raw have raw': "drop (Suc (m_size v)) (slots v) = replicate (Capacity v - Suc (m_size v)) None"
    by simp
  from assms(2) len live raw' show ?thesis
    by (simp add: inv_iff sl sz elems_def take_Suc_conv_app_nth live_def)
qed

lemma EmplaceBack_grow_ok:
  fixes env :: "'a env" and x :: 'a
  assumes "inv v" "m_size v = Capacity v" "\<not> new_fails env (grown (m_size v))"
    "\<not> relocation_throws env (elems v)" "alloc_slots env (grown (m_size v)) = grown (m_size v)"
  defines "v' \<equiv> snd (EmplaceBack env (Inr x) v)"
  shows "m_size v' = Suc (m_size v) \<and> elems v' = elems v @ [x] \<and> slots v' ! m_size v = Some x
     \<and> Capacity v' = grown (m_size v) \<and> inv v'"
proof -
  have v': "v' = \<lparr>m_data = \<lparr>m_buffer = Some (slots v @ Some x # replicate (grown (m_size v) - Suc (m_size v)) None),
                     m_capacity = grown (m_size v)\<rparr>,
           m_size = Suc (m_size v)\<rparr>"
    unfolding v'_def by (rule EmplaceBack_grow_outcome(2) [OF assms(1,2,5,3,4)]) simp
  from assms(1,2) have len: "length (slots v) = m_size v" and live: "list_all live (slots v)"
    by (auto simp: inv_iff)
  have g: "m_size v < grown (m_size v)" by (simp add: grown_def)
  from len live g show ?thesis
    by (simp add: inv_iff v' elems_def slots_def block_of_def Capacity_def live_def nth_append)
qed

text \<open>
  Claim C6.  For a vector that satisfies the invariant and, when it is full, exists in
  memory (so that the byte count of the block twice as large is below \<open>2^64\<close>),
  \<^verbatim>\<open>EmplaceBack\<close> returns normally exactly when the constructor of the new element does not throw and, if
  \<open>size = capacity\<close>, the allocation succeeds and the migration does not throw.  When it
  returns normally the new element is in slot \<open>size\<close>, the elements before it keep
  their values and order, the size is one more, and the capacity is unchanged if
  \<open>size < capacity\<close> and exactly \<open>max 1 (2 * size)\<close> if \<open>size = capacity\<close>.
\<close>
theorem EmplaceBack_contract:
  assumes "inv v" "m_size v = Capacity v \<longrightarrow> in_memory env v"
  shows "fst (EmplaceBack env ctor v)
       = (if m_size v = Capacity v \<and> new_fails env (max 1 (2 * m_size v)) then Inl BadAlloc
          else case ctor of
                 Inl e \<Rightarrow> Inl e
               | Inr x \<Rightarrow>
                   if m_size v = Capacity v \<and> relocation_throws env (elems v) then Inl ElemThrow
                   else Inr (m_size v))
     \<and> (\<forall>x r. ctor = Inr x \<and> fst (EmplaceBack env ctor v) = Inr r \<longrightarrow>
           Size (snd (EmplaceBack env ctor v)) = Size v + 1
           \<and> elems (snd (EmplaceBack env ctor v)) = elems v @ [x]
           \<and> slots (snd (EmplaceBack env ctor v)) ! Size v = Some x
           \<and> Capacity (snd (EmplaceBack env ctor v))
               = (if Size v < Capacity v then Capacity v else max 1 (2 * Size v))
           \<and> inv (snd (EmplaceBack env ctor v)))"
proof (cases "m_size v = Capacity v")
  case True
  with assms(2) have "in_memory env v" by simp
  then have fits: "alloc_slots env (grown (m_size v)) = grown (m_size v)"
    using True by (rule in_memory_grown)
  from EmplaceBack_grow_outcome(1) [OF assms(1) True fits, of ctor]
  have out: "fst (EmplaceBack env ctor v)
       = (if new_fails env (grown (m_size v)) then Inl BadAlloc
          else case ctor of
                 Inl e \<Rightarrow> Inl e
               | Inr x \<Rightarrow> if relocation_throws env (elems v) then Inl ElemThrow else Inr (m_size v))" .
  have "ctor = Inr x \<Longrightarrow> fst (EmplaceBack env ctor v) = Inr r \<Longrightarrow>
           Size (snd (EmplaceBack env ctor v)) = Size v + 1
           \<and> elems (snd (EmplaceBack env ctor v)) = elems v @ [x]
           \<and> slots (snd (EmplaceBack env ctor v)) ! Size v = Some x
           \<and> Capacity (snd (EmplaceBack env ctor v)) = grown (m_size v)
           \<and> inv (snd (EmplaceBack env ctor v))" for x r
    using out EmplaceBack_grow_ok [OF assms(1) True _ _ fits, of x]
    by (simp add: Size_def split: if_splits)
  then have post: "\<forall>x r. ctor = Inr x \<and> fst (EmplaceBack env ctor v) = Inr r \<longrightarrow>
           Size (snd (EmplaceBack env ctor v)) = Size v + 1
           \<and> elems (snd (EmplaceBack env ctor v)) = elems v @ [x]
           \<and> slots (snd (EmplaceBack env ctor v)) ! Size v = Some x
           \<and> Capacity (snd (EmplaceBack env ctor v))
               = (if Size v < Capacity v then Capacity v else max 1 (2 * Size v))
           \<and> inv (snd (EmplaceBack env ctor v))"
    using True by (auto simp: grown_max Size_def)
  have "fst (EmplaceBack env ctor v)
       = (if m_size v = Capacity v \<and> new_fails env (max 1 (2 * m_size v)) then Inl BadAlloc
          else case ctor of
                 Inl e \<Rightarrow> Inl e
               | Inr x \<Rightarrow>
                   if m_size v = Capacity v \<and> relocation_throws env (elems v) then Inl ElemThrow
                   else Inr (m_size v))"
    using out True by (simp add: grown_max)
  with post show ?thesis by blast
next
  case False
  with assms(1) have room: "m_size v < Capacity v"
    by (simp add: inv_iff)
  have out: "EmplaceBack env ctor v
     = (case ctor of Inl e \<Rightarrow> (Inl e, v)
        | Inr x \<Rightarrow> (Inr (m_size v), (set_slots v ((slots v)[m_size v := Some x]))\<lparr>m_size := Suc (m_size v)\<rparr>))"
    using EmplaceBack_room_eq [OF assms(1) room, of env] EmplaceBack_room_fail [OF assms(1) room, of env]
    by (cases ctor) simp_all
  have "ctor = Inr x \<Longrightarrow>
           Size (snd (EmplaceBack env ctor v)) = Size v + 1
           \<and> elems (snd (EmplaceBack env ctor v)) = elems v @ [x]
           \<and> slots (snd (EmplaceBack env ctor v)) ! Size v = Some x
           \<and> Capacity (snd (EmplaceBack env ctor v)) = Capacity v
           \<and> inv (snd (EmplaceBack env ctor v))" for x
    using EmplaceBack_room_ok [OF assms(1) room, of env x]
    by (simp add: Size_def)
  with room False show ?thesis
    by (simp add: out Size_def split: sum.splits)
qed

theorem EmplaceBack_contract_witness:
  "inv (vector_of [1, 2, 3 :: int] 3)
   \<and> in_memory int_elem (vector_of [1, 2, 3] 3)
   \<and> fst (EmplaceBack int_elem (Inr 7) (vector_of [1, 2, 3] 3)) = Inr 3
   \<and> elems (snd (EmplaceBack int_elem (Inr 7) (vector_of [1, 2, 3] 3))) = [1, 2, 3, 7]
   \<and> Size (snd (EmplaceBack int_elem (Inr 7) (vector_of [1, 2, 3] 3))) = 4
   \<and> Capacity (snd (EmplaceBack int_elem (Inr 7) (vector_of [1, 2, 3] 3))) = 6"
proof -
  have h: "inv (vector_of [1, 2, 3 :: int] 3)"
    by code_simp
  have c: "m_size (vector_of [1, 2, 3 :: int] 3) = 3" "Capacity (vector_of [1, 2, 3 :: int] 3) = 3"
    "Size (vector_of [1, 2, 3 :: int] 3) = 3" "elems (vector_of [1, 2, 3 :: int] 3) = [1, 2, 3]"
    "\<not> new_fails int_elem 6" "\<not> relocation_throws int_elem [1, 2, 3]"
    by code_simp+
  have m: "in_memory int_elem (vector_of [1, 2, 3] 3)"
    by (simp add: in_memory_def int_elem_def vector_of_def Capacity_def)
  from EmplaceBack_contract [OF h, of int_elem "Inr 7"] h c m
  show ?thesis by simp
qed

section \<open>Erase\<close>

lemma live_cong_range:
  fixes xs ys :: "'a option list"
  assumes "map live xs = map live ys"
  shows "list_all live (take n (drop k xs)) = list_all live (take n (drop k ys))"
proof -
  have "list_all live (take n (drop k zs)) = list_all id (take n (drop k (map live zs)))"
    for zs :: "'a option list"
    by (simp add: list_all_iff take_map drop_map)
  from this [of xs] this [of ys] assms show ?thesis by simp
qed

lemma live_update: "i < length b \<Longrightarrow> live (b ! i) \<Longrightarrow> map live (b[i := Some y]) = map live b"
  by (simp add: map_update live_def list_update_same_conv)

lemma live_update2:
  assumes "i < length b" "live (b ! i)" "j < length b" "live (b ! j)"
  shows "map live (b[i := Some y, j := Some z]) = map live b"
proof -
  from assms have "live (b[i := Some y] ! j)"
    by (simp add: nth_list_update live_def)
  with assms(3) have "map live (b[i := Some y, j := Some z]) = map live (b[i := Some y])"
    by (intro live_update) simp_all
  with assms(1,2) show ?thesis
    by (simp add: live_update)
qed

lemma std_move_length: "std_move env b first n d = (r, b') \<Longrightarrow> length b' = length b"
proof (induction n arbitrary: b first d)
  case 0
  then show ?case by simp
next
  case (Suc n)
  then show ?case
    by (fastforce split: sum.splits prod.splits simp: step_simps)
qed

lemma std_move_live: "std_move env b first n d = (r, b') \<Longrightarrow> map live b' = map live b"
proof (induction n arbitrary: b first d)
  case 0
  then show ?case by simp
next
  case (Suc n)
  show ?case
  proof (cases "\<exists>x y. deref b first = Inr x \<and> deref b d = Inr y \<and> \<not> move_assign_throws env y x")
    case False
    with Suc.prems show ?thesis
      by (auto split: sum.splits prod.splits simp: T_move_assign_def)
  next
    case True
    then obtain x y where x: "first < length b" "b ! first = Some x" "d < length b" "b ! d = Some y"
      "\<not> move_assign_throws env y x"
      by (auto simp: step_simps)
    with Suc.prems have
      rec: "std_move env (b[first := Some (moved_from env x), d := Some x]) (Suc first) n (Suc d) = (r, b')"
      by (simp add: deref_def T_move_assign_def)
    from x have "live (b ! first)" "live (b ! d)"
      by (simp_all add: live_def)
    with Suc.IH [OF rec] x show ?thesis
      by (simp add: live_update2)
  qed
qed

lemma std_move_shift_ok:
  "std_move env b (Suc d) n d = (None, b') \<Longrightarrow>
     take (d + n) b' = take d b @ take n (drop (Suc d) b)
     \<and> drop (Suc (d + n)) b' = drop (Suc (d + n)) b"
proof (induction n arbitrary: b d)
  case 0
  then show ?case by simp
next
  case (Suc n)
  from Suc.prems obtain x y where x: "Suc d < length b" "b ! Suc d = Some x" "b ! d = Some y"
    and rec: "std_move env (b[Suc d := Some (moved_from env x), d := Some x]) (Suc (Suc d)) n (Suc d)
                = (None, b')"
    by (auto split: sum.splits prod.splits simp: step_simps)
  from Suc.IH [OF rec] x show ?case
    by (simp add: take_Suc_conv_app_nth Cons_nth_drop_Suc [symmetric])
qed

lemma std_move_total:
  assumes "\<forall>x y. \<not> move_assign_throws env y x"
  shows "first + n \<le> length b \<Longrightarrow> d + n \<le> length b \<Longrightarrow>
     list_all live (take n (drop first b)) \<Longrightarrow> list_all live (take n (drop d b)) \<Longrightarrow>
     fst (std_move env b first n d) = None"
proof (induction n arbitrary: b first d)
  case 0
  then show ?case by simp
next
  case (Suc n)
  from Suc.prems obtain x y where x: "first < length b" "b ! first = Some x" "d < length b" "b ! d = Some y"
    by (cases "b ! first"; cases "b ! d") (auto simp: Cons_nth_drop_Suc [symmetric] live_def)
  define b1 where "b1 = b[first := Some (moved_from env x), d := Some x]"
  from x have "live (b ! first)" "live (b ! d)"
    by (simp_all add: live_def)
  with x have lv: "map live b1 = map live b"
    by (simp add: b1_def live_update2)
  from Suc.prems x have "list_all live (take n (drop (Suc first) b))" "list_all live (take n (drop (Suc d) b))"
    by (simp_all add: Cons_nth_drop_Suc [symmetric])
  with live_cong_range [OF lv] have "list_all live (take n (drop (Suc first) b1))"
    "list_all live (take n (drop (Suc d) b1))"
    by simp_all
  with Suc.prems have "fst (std_move env b1 (Suc first) n (Suc d)) = None"
    by (intro Suc.IH) (simp_all add: b1_def)
  with x assms show ?case
    by (simp add: deref_def T_move_assign_def b1_def)
qed


lemma Erase_cases:
  assumes "inv v" "m_size v = Suc (pos + n)"
    "std_move env (slots v) (Suc pos) n pos = (r1, b1)"
    "destroy_n b1 (pos + n) (Suc 0) = (r2, b2)"
  shows "Erase env pos v
     = (case r1 of
          Some f \<Rightarrow> (Inl f, set_slots v b1)
        | None \<Rightarrow>
            (case r2 of
               Some f \<Rightarrow> (Inl f, set_slots v b2)
             | None \<Rightarrow> (Inr pos, (set_slots v b2)\<lparr>m_size := pos + n\<rparr>)))"
  using assms inv_le [OF assms(1)]
  by (cases r1; cases r2)
     (simp_all add: Erase_def Vector_begin_def Vector_end_def RawMemory_plus_def Capacity_def Let_def)

lemma Erase_ok:
  assumes "inv v" "pos < m_size v" "Erase env pos v = (Inr r, v')"
  shows "r = pos \<and> m_size v' = m_size v - 1 \<and> Capacity v' = Capacity v
     \<and> elems v' = take pos (elems v) @ drop (Suc pos) (elems v) \<and> inv v'"
proof -
  define b where "b = slots v"
  define n where "n = m_size v - Suc pos"
  from assms(2) have sz: "m_size v = Suc (pos + n)" by (simp add: n_def)
  obtain r1 b1 where mv1: "std_move env b (Suc pos) n pos = (r1, b1)"
    by (cases "std_move env b (Suc pos) n pos") auto
  obtain r2 b2 where de2: "destroy_n b1 (pos + n) (Suc 0) = (r2, b2)"
    by (cases "destroy_n b1 (pos + n) (Suc 0)") auto
  note unf = Erase_cases [OF assms(1) sz mv1 [unfolded b_def] de2]
  from assms(3) have r12: "r1 = None" "r2 = None"
    and v': "v' = (set_slots v b2)\<lparr>m_size := pos + n\<rparr>" and r: "r = pos"
    unfolding unf by (cases r1; cases r2; simp)+
  from mv1 de2 r12 have mv: "std_move env b (Suc pos) n pos = (None, b1)"
    and de: "destroy_n b1 (pos + n) (Suc 0) = (None, b2)"
    by simp_all
  from assms(1) have len: "length b = Capacity v" and le: "Suc (pos + n) \<le> Capacity v"
    and live: "list_all live (take (Suc (pos + n)) b)"
    and raw: "drop (Suc (pos + n)) b = replicate (Capacity v - Suc (pos + n)) None"
    by (simp_all add: inv_iff b_def sz)
  from std_move_shift_ok [OF mv] have b1: "take (pos + n) b1 = take pos b @ take n (drop (Suc pos) b)"
    "drop (Suc (pos + n)) b1 = drop (Suc (pos + n)) b"
    by simp_all
  from std_move_length [OF mv] have len1: "length b1 = length b" .
  from destroy_n_ok [OF de] b1 have b2: "b2 = take pos b @ take n (drop (Suc pos) b) @ None # drop (Suc (pos + n)) b"
    by simp
  from len le have len2: "length b2 = length b"
    by (simp add: b2)
  have sl: "slots v' = b2"
    by (simp add: v' slots_set_slots len2 b_def [symmetric])
  have split: "take (Suc (pos + n)) b = take pos b @ b ! pos # take n (drop (Suc pos) b)"
    using len le by (simp add: take_add [of pos "Suc n" b, simplified] Cons_nth_drop_Suc [symmetric])
  from len le have tk: "take (pos + n) b2 = take pos b @ take n (drop (Suc pos) b)"
    and dr: "drop (pos + n) b2 = None # drop (Suc (pos + n)) b"
    by (simp_all add: b2)
  have el: "elems v = map the (take pos b) @ the (b ! pos) # map the (take n (drop (Suc pos) b))"
    by (simp add: elems_def sz b_def [symmetric] split)
  have sz': "m_size v' = pos + n" "Capacity v' = Capacity v"
    by (simp_all add: v')
  from len le have el': "elems v' = map the (take pos b) @ map the (take n (drop (Suc pos) b))"
    by (simp add: elems_def sl sz' tk)
  from len le have "length (map the (take pos b)) = pos"
    by simp
  with el el' have "elems v' = take pos (elems v) @ drop (Suc pos) (elems v)"
    by simp
  moreover from len le live raw have "inv v'"
    by (simp add: inv_iff sl sz' tk dr len2 split Suc_diff_le replicate_Suc [symmetric] del: replicate_Suc)
  ultimately show ?thesis
    by (simp add: r sz' sz)
qed

lemma Erase_total:
  assumes "inv v" "pos < m_size v" "\<forall>x y. \<not> move_assign_throws env y x"
  shows "fst (Erase env pos v) = Inr pos"
proof -
  define b where "b = slots v"
  define n where "n = m_size v - Suc pos"
  from assms(2) have sz: "m_size v = Suc (pos + n)" by (simp add: n_def)
  from assms(1) have len: "length b = Capacity v" and le: "Suc (pos + n) \<le> Capacity v"
    and live: "list_all live (take (Suc (pos + n)) b)"
    by (simp_all add: inv_iff b_def sz)
  obtain r b1 where mv: "std_move env b (Suc pos) n pos = (r, b1)"
    by (cases "std_move env b (Suc pos) n pos") auto
  have split: "take (Suc (pos + n)) b = take pos b @ b ! pos # take n (drop (Suc pos) b)"
    using len le by (simp add: take_add [of pos "Suc n" b, simplified] Cons_nth_drop_Suc [symmetric])
  have split2: "take (Suc (pos + n)) b = take pos b @ take n (drop pos b) @ [b ! (pos + n)]"
    using len le by (simp add: take_Suc_conv_app_nth take_add)
  from live have l1: "list_all live (take n (drop (Suc pos) b))"
    by (simp add: split)
  from live have l2: "list_all live (take n (drop pos b))" and l3: "live (b ! (pos + n))"
    by (simp_all add: split2)
  from std_move_total [OF assms(3), of "Suc pos" n b pos] len le l1 l2 mv
  have r: "r = None" by simp
  from std_move_length [OF mv] std_move_live [OF mv] have len1: "length b1 = length b"
    and lv: "map live b1 = map live b"
    by simp_all
  from lv have "map live b1 ! (pos + n) = map live b ! (pos + n)" by simp
  with len len1 le l3 have "live (b1 ! (pos + n))" by simp
  with len len1 le have de: "destroy_n b1 (pos + n) (Suc 0) = (None, b1[pos + n := None])"
    by (cases "b1 ! (pos + n)") (simp_all add: live_def deref_def)
  from r show ?thesis
    by (simp add: Erase_cases [OF assms(1) sz mv [unfolded b_def] de])
qed


lemma length_elems: "inv v \<Longrightarrow> length (elems v) = m_size v"
  by (simp add: elems_def inv_iff)

text \<open>
  Claim C9.  For a vector that satisfies the invariant and a position \<open>pos < size\<close>,
  an \<^verbatim>\<open>Erase\<close> that returns normally returns \<open>pos\<close> itself; the elements behind \<open>pos\<close>
  have moved one position to the front with their values, so that position \<open>pos\<close>
  now holds the element that followed the removed one; the size is one less and
  the capacity is unchanged.  It returns normally whenever the move assignment of
  the element type does not throw.
\<close>
theorem Erase_contract:
  assumes "inv v" "pos < Size v"
  shows "(\<forall>r. fst (Erase env pos v) = Inr r \<longrightarrow>
            r = pos
            \<and> Size (snd (Erase env pos v)) = Size v - 1
            \<and> Capacity (snd (Erase env pos v)) = Capacity v
            \<and> elems (snd (Erase env pos v)) = take pos (elems v) @ drop (Suc pos) (elems v)
            \<and> (Suc pos < Size v \<longrightarrow> elems (snd (Erase env pos v)) ! pos = elems v ! Suc pos)
            \<and> inv (snd (Erase env pos v)))
     \<and> ((\<forall>x y. \<not> move_assign_throws env y x) \<longrightarrow> fst (Erase env pos v) = Inr pos)"
proof (intro conjI allI impI)
  assume "\<forall>x y. \<not> move_assign_throws env y x"
  with assms show "fst (Erase env pos v) = Inr pos"
    by (simp add: Erase_total Size_def)
next
  fix r
  assume "fst (Erase env pos v) = Inr r"
  then have "Erase env pos v = (Inr r, snd (Erase env pos v))"
    by (cases "Erase env pos v") simp
  from Erase_ok [OF assms(1) assms(2) [unfolded Size_def] this]
  have ok: "r = pos" "m_size (snd (Erase env pos v)) = m_size v - 1"
    "Capacity (snd (Erase env pos v)) = Capacity v"
    "elems (snd (Erase env pos v)) = take pos (elems v) @ drop (Suc pos) (elems v)"
    "inv (snd (Erase env pos v))"
    by simp_all
  from ok show "r = pos" "Size (snd (Erase env pos v)) = Size v - 1"
    "Capacity (snd (Erase env pos v)) = Capacity v"
    "elems (snd (Erase env pos v)) = take pos (elems v) @ drop (Suc pos) (elems v)"
    "inv (snd (Erase env pos v))"
    by (simp_all add: Size_def)
  assume "Suc pos < Size v"
  with length_elems [OF assms(1)] show "elems (snd (Erase env pos v)) ! pos = elems v ! Suc pos"
    by (simp add: ok(4) nth_append Size_def)
qed

theorem Erase_contract_witness:
  "inv (vector_of [1, 2, 99, 3, 4, 5 :: int] 8) \<and> 2 < Size (vector_of [1, 2, 99, 3, 4, 5 :: int] 8)
   \<and> fst (Erase int_elem 2 (vector_of [1, 2, 99, 3, 4, 5] 8)) = Inr 2
   \<and> elems (snd (Erase int_elem 2 (vector_of [1, 2, 99, 3, 4, 5] 8))) = [1, 2, 3, 4, 5]
   \<and> Size (snd (Erase int_elem 2 (vector_of [1, 2, 99, 3, 4, 5] 8))) = 5
   \<and> elems (snd (Erase int_elem 2 (vector_of [1, 2, 99, 3, 4, 5] 8))) ! 2 = 3"
proof -
  have h: "inv (vector_of [1, 2, 99, 3, 4, 5 :: int] 8)" "2 < Size (vector_of [1, 2, 99, 3, 4, 5 :: int] 8)"
    by code_simp+
  have c: "Size (vector_of [1, 2, 99, 3, 4, 5 :: int] 8) = 6"
    "elems (vector_of [1, 2, 99, 3, 4, 5 :: int] 8) = [1, 2, 99, 3, 4, 5]"
    "\<forall>x y. \<not> move_assign_throws int_elem y x"
    by (simp_all add: Size_def vector_of_def elems_def slots_def block_of_def int_elem_def)
  from Erase_contract [OF h, of int_elem] h c
  show ?thesis by simp
qed

section \<open>Emplace with room left\<close>

lemma std_move_backward_length:
  "std_move_backward env b first n d_last = (r, b') \<Longrightarrow> length b' = length b"
proof (induction n arbitrary: b d_last)
  case 0
  then show ?case by simp
next
  case (Suc n)
  then show ?case
    by (fastforce split: sum.splits prod.splits if_splits simp: step_simps)
qed

lemma std_move_backward_live:
  "std_move_backward env b first n d_last = (r, b') \<Longrightarrow> map live b' = map live b"
proof (induction n arbitrary: b d_last)
  case 0
  then show ?case by simp
next
  case (Suc n)
  show ?case
  proof (cases "d_last \<noteq> 0 \<and> (\<exists>x y. deref b (first + n) = Inr x \<and> deref b (d_last - 1) = Inr y
                  \<and> \<not> move_assign_throws env y x)")
    case False
    with Suc.prems show ?thesis
      by (auto split: sum.splits prod.splits if_splits simp: T_move_assign_def)
  next
    case True
    then obtain x y where x: "first + n < length b" "b ! (first + n) = Some x"
      "d_last - 1 < length b" "b ! (d_last - 1) = Some y" "\<not> move_assign_throws env y x" "d_last \<noteq> 0"
      by (auto simp: step_simps)
    with Suc.prems have
      rec: "std_move_backward env (b[first + n := Some (moved_from env x), d_last - 1 := Some x])
              first n (d_last - 1) = (r, b')"
      by (simp add: deref_def T_move_assign_def)
    from x have "live (b ! (first + n))" "live (b ! (d_last - 1))"
      by (simp_all add: live_def)
    with Suc.IH [OF rec] x show ?thesis
      by (simp add: live_update2)
  qed
qed

lemma std_move_backward_shift_ok:
  "std_move_backward env b first n (Suc (first + n)) = (None, b') \<Longrightarrow>
     take first b' = take first b
     \<and> take n (drop (Suc first) b') = take n (drop first b)
     \<and> drop (Suc (first + n)) b' = drop (Suc (first + n)) b"
proof (induction n arbitrary: b)
  case 0
  then show ?case by simp
next
  case (Suc n)
  from Suc.prems obtain x y where x: "Suc (first + n) < length b" "b ! (first + n) = Some x"
    and rec: "std_move_backward env (b[first + n := Some (moved_from env x), Suc (first + n) := Some x])
                first n (Suc (first + n)) = (None, b')"
    by (auto split: sum.splits prod.splits simp: step_simps)
  define b1 where "b1 = b[first + n := Some (moved_from env x), Suc (first + n) := Some x]"
  from Suc.IH [OF rec] have ih: "take first b' = take first b1"
    "take n (drop (Suc first) b') = take n (drop first b1)"
    "drop (Suc (first + n)) b' = drop (Suc (first + n)) b1"
    by (simp_all add: b1_def)
  from std_move_backward_length [OF rec] have len: "length b' = length b"
    by simp
  have 1: "take first b1 = take first b"
    by (simp add: b1_def)
  have 2: "take n (drop first b1) = take n (drop first b)"
    by (simp add: b1_def drop_update_swap)
  from x have 3: "drop (Suc (first + n)) b1 = Some x # drop (Suc (Suc (first + n))) b"
    by (simp add: b1_def drop_update_swap Cons_nth_drop_Suc [symmetric])
  from ih(3) 3 have nth: "b' ! Suc (first + n) = Some x"
    using x len by (metis Cons_nth_drop_Suc list.inject)
  from ih(3) 3 have 4: "drop (Suc (Suc (first + n))) b' = drop (Suc (Suc (first + n))) b"
    using x len by (metis Cons_nth_drop_Suc list.inject)
  from x len have "take (Suc n) (drop (Suc first) b') = take n (drop (Suc first) b') @ [b' ! (Suc (first + n))]"
    by (simp add: take_Suc_conv_app_nth)
  moreover from x have "take (Suc n) (drop first b) = take n (drop first b) @ [b ! (first + n)]"
    by (simp add: take_Suc_conv_app_nth)
  ultimately show ?case
    using ih 1 2 4 nth x by simp
qed

lemma live_nth: "list_all live (take k (drop first b)) \<Longrightarrow> i < k \<Longrightarrow> first + i < length b \<Longrightarrow> live (b ! (first + i))"
  by (simp add: list_all_length)

lemma std_move_backward_total:
  assumes "\<forall>x y. \<not> move_assign_throws env y x"
  shows "first + n < length b \<Longrightarrow> list_all live (take (Suc n) (drop first b)) \<Longrightarrow>
     fst (std_move_backward env b first n (Suc (first + n))) = None"
proof (induction n arbitrary: b)
  case 0
  then show ?case by simp
next
  case (Suc n)
  from live_nth [OF Suc.prems(2), of n] live_nth [OF Suc.prems(2), of "Suc n"] Suc.prems(1)
  have lv: "live (b ! (first + n))" "live (b ! Suc (first + n))"
    by simp_all
  then obtain x y where x: "b ! (first + n) = Some x" "b ! Suc (first + n) = Some y"
    by (auto simp: live_def)
  define b1 where "b1 = b[first + n := Some (moved_from env x), Suc (first + n) := Some x]"
  from lv Suc.prems(1) have pat: "map live b1 = map live b"
    by (simp add: b1_def live_update2)
  from Suc.prems(2) have "list_all live (take (Suc n) (drop first b))"
    by (simp add: list_all_length)
  with live_cong_range [OF pat] have "list_all live (take (Suc n) (drop first b1))"
    by simp
  with Suc.prems(1) have "fst (std_move_backward env b1 first n (Suc (first + n))) = None"
    by (intro Suc.IH) (simp_all add: b1_def)
  with x Suc.prems(1) assms show ?case
    by (simp add: deref_def T_move_assign_def b1_def)
qed


lemma live_nth0: "list_all live (take k b) \<Longrightarrow> i < k \<Longrightarrow> i < length b \<Longrightarrow> live (b ! i)"
  by (simp add: list_all_length)

lemma Emplace_shift_cases:
  assumes "inv v" "m_size v = Suc (pos + n)" "m_size v < Capacity v"
    "slots v ! (pos + n) = Some last_elem"
    "std_move_backward env ((slots v)[pos + n := Some (moved_from env last_elem),
        Suc (pos + n) := Some last_elem]) pos n (Suc (pos + n)) = (r1, b2)"
  shows "Emplace_shift env pos (Inr x) v
     = (if \<not> nothrow_move_constructible env \<and> move_ctor_throws env last_elem then (Inl ElemThrow, v)
        else case r1 of
               Some f \<Rightarrow> (Inl f, set_slots v b2)
             | None \<Rightarrow>
                 (case deref b2 pos of
                    Inl f \<Rightarrow> (Inl f, set_slots v b2)
                  | Inr old \<Rightarrow>
                      if move_assign_throws env old x then (Inl ElemThrow, set_slots v b2)
                      else (Inr pos, (set_slots v (b2[pos := Some x]))\<lparr>m_size := Suc (Suc (pos + n))\<rparr>)))"
proof -
  from assms(1,2,3) have len: "length (slots v) = Capacity v" "Suc (Suc (pos + n)) \<le> Capacity v"
    by (simp_all add: inv_iff)
  with assms(2,3,4,5) show ?thesis
    by (cases r1; cases "deref b2 pos")
       (simp_all add: Emplace_shift_def RawMemory_plus_def RawMemory_index_def Capacity_def [symmetric]
          deref_def construct_at_def T_move_def T_move_assign_def Vector_begin_def Vector_end_def Let_def)
qed


lemma Emplace_shift_ok:
  assumes "inv v" "m_size v < Capacity v" "pos < m_size v"
    "Emplace_shift env pos (Inr x) v = (Inr r, v')"
  shows "r = pos \<and> m_size v' = Suc (m_size v) \<and> Capacity v' = Capacity v
     \<and> elems v' = take pos (elems v) @ x # drop pos (elems v) \<and> inv v'"
proof -
  define b where "b = slots v"
  define n where "n = m_size v - Suc pos"
  from assms(3) have sz: "m_size v = Suc (pos + n)" by (simp add: n_def)
  from assms(1,2) have len: "length b = Capacity v" and le: "Suc (Suc (pos + n)) \<le> Capacity v"
    and live: "list_all live (take (Suc (pos + n)) b)"
    and raw: "drop (Suc (pos + n)) b = replicate (Capacity v - Suc (pos + n)) None"
    by (simp_all add: inv_iff b_def sz)
  from live_nth0 [OF live, of "pos + n"] len le
  obtain last_elem where last_elem: "b ! (pos + n) = Some last_elem"
    by (auto simp: live_def)
  define b1 where "b1 = b[pos + n := Some (moved_from env last_elem), Suc (pos + n) := Some last_elem]"
  obtain r1 b2 where mb1: "std_move_backward env b1 pos n (Suc (pos + n)) = (r1, b2)"
    by (cases "std_move_backward env b1 pos n (Suc (pos + n))") auto
  note unf = Emplace_shift_cases [OF assms(1) sz assms(2) last_elem [unfolded b_def]
      mb1 [unfolded b1_def b_def], of x]
  from assms(4) have r1: "r1 = None" and r: "r = pos"
    and v': "v' = (set_slots v (b2[pos := Some x]))\<lparr>m_size := Suc (Suc (pos + n))\<rparr>"
    unfolding unf by (cases r1; cases "deref b2 pos"; simp split: if_splits)+
  from mb1 r1 have mb: "std_move_backward env b1 pos n (Suc (pos + n)) = (None, b2)"
    by simp
  from std_move_backward_length [OF mb] len have len2: "length b2 = Capacity v"
    by (simp add: b1_def)
  have "take pos b1 = take pos b"
    by (simp add: b1_def)
  moreover have "take n (drop pos b1) = take n (drop pos b)"
    by (simp add: b1_def drop_update_swap)
  moreover from len le have "drop (Suc (pos + n)) b1 = Some last_elem # drop (Suc (Suc (pos + n))) b"
    by (simp add: b1_def drop_update_swap Cons_nth_drop_Suc [symmetric])
  ultimately have b2: "take pos b2 = take pos b" "take n (drop (Suc pos) b2) = take n (drop pos b)"
    "drop (Suc (pos + n)) b2 = Some last_elem # drop (Suc (Suc (pos + n))) b"
    using std_move_backward_shift_ok [OF mb] by simp_all
  have dd: "drop n (drop (Suc pos) b2) = drop (Suc (pos + n)) b2"
    by (simp add: add.commute)
  have "drop (Suc pos) b2 = take n (drop (Suc pos) b2) @ drop n (drop (Suc pos) b2)"
    by (simp only: append_take_drop_id)
  also have "\<dots> = take n (drop pos b) @ Some last_elem # drop (Suc (Suc (pos + n))) b"
    by (simp only: b2 dd)
  finally have tail: "drop (Suc pos) b2 = take n (drop pos b) @ Some last_elem # drop (Suc (Suc (pos + n))) b" .
  define b3 where "b3 = b2[pos := Some x]"
  from len2 le b2 tail have b3: "b3 = take pos b @ Some x # take n (drop pos b) @ Some last_elem
       # drop (Suc (Suc (pos + n))) b"
    by (simp add: b3_def upd_conv_take_nth_drop)
  from len le have len3: "length b3 = Capacity v"
    by (simp add: b3_def len2)
  have sl: "slots v' = b3"
    by (simp add: v' slots_set_slots b3_def len2 b_def [symmetric] len)
  have sz': "m_size v' = Suc (Suc (pos + n))" "Capacity v' = Capacity v"
    by (simp_all add: v')
  have split: "take (Suc (pos + n)) b = take pos b @ take n (drop pos b) @ [Some last_elem]"
    using len le last_elem by (simp add: take_Suc_conv_app_nth take_add)
  from len le have tk: "take (Suc (Suc (pos + n))) b3
       = take pos b @ Some x # take n (drop pos b) @ [Some last_elem]"
    by (simp add: b3)
  from len le have dr: "drop (Suc (Suc (pos + n))) b3 = drop (Suc (Suc (pos + n))) b"
    by (simp add: b3)
  have "drop (Suc (Suc (pos + n))) b = tl (drop (Suc (pos + n)) b)"
    by (simp add: drop_Suc tl_drop)
  with raw have raw': "drop (Suc (Suc (pos + n))) b = replicate (Capacity v - Suc (Suc (pos + n))) None"
    by simp
  have el: "elems v = map the (take pos b) @ map the (take n (drop pos b)) @ [last_elem]"
    by (simp add: elems_def sz b_def [symmetric] split)
  have el': "elems v' = map the (take pos b) @ x # map the (take n (drop pos b)) @ [last_elem]"
    by (simp add: elems_def sl sz' tk)
  from len le have "length (map the (take pos b)) = pos"
    by simp
  with el el' have "elems v' = take pos (elems v) @ x # drop pos (elems v)"
    by simp
  moreover from le live have "inv v'"
    by (simp add: inv_iff sl sz' tk dr len3 raw' split live_def)
  ultimately show ?thesis
    by (simp add: r sz' sz)
qed

lemma Emplace_shift_total:
  assumes "inv v" "m_size v < Capacity v" "pos < m_size v"
    "nothrow_move_constructible env \<or> \<not> move_ctor_throws env (last (elems v))"
    "\<forall>x y. \<not> move_assign_throws env y x"
  shows "fst (Emplace_shift env pos (Inr x) v) = Inr pos"
proof -
  define b where "b = slots v"
  define n where "n = m_size v - Suc pos"
  from assms(3) have sz: "m_size v = Suc (pos + n)" by (simp add: n_def)
  from assms(1,2) have len: "length b = Capacity v" and le: "Suc (Suc (pos + n)) \<le> Capacity v"
    and live: "list_all live (take (Suc (pos + n)) b)"
    by (simp_all add: inv_iff b_def sz)
  from live_nth0 [OF live, of "pos + n"] len le
  obtain last_elem where last_elem: "b ! (pos + n) = Some last_elem"
    by (auto simp: live_def)
  from len le last_elem have "last (elems v) = last_elem"
    by (simp add: elems_def sz b_def [symmetric] take_Suc_conv_app_nth)
  with assms(4) have nt: "\<not> (\<not> nothrow_move_constructible env \<and> move_ctor_throws env last_elem)"
    by auto
  define b1 where "b1 = b[pos + n := Some (moved_from env last_elem), Suc (pos + n) := Some last_elem]"
  obtain r1 b2 where mb1: "std_move_backward env b1 pos n (Suc (pos + n)) = (r1, b2)"
    by (cases "std_move_backward env b1 pos n (Suc (pos + n))") auto
  note unf = Emplace_shift_cases [OF assms(1) sz assms(2) last_elem [unfolded b_def]
      mb1 [unfolded b1_def b_def], of x]
  from len le have len1: "length b1 = Capacity v"
    by (simp add: b1_def)
  have tk1: "take (Suc (pos + n)) b1 = take (Suc (pos + n)) (b[pos + n := Some (moved_from env last_elem)])"
    by (simp add: b1_def)
  from live len le have "list_all live (take (Suc (pos + n)) b1)"
    unfolding tk1 by (auto simp: list_all_length nth_list_update live_def)
  then have "list_all live (take pos b1 @ take (Suc n) (drop pos b1))"
    by (simp add: take_add [symmetric] del: take_Suc)
  then have lvn: "list_all live (take (Suc n) (drop pos b1))"
    by simp
  from std_move_backward_total [OF assms(5), of pos n b1, OF _ lvn] len1 le mb1
  have r1: "r1 = None"
    by simp
  from std_move_backward_length [OF mb1] std_move_backward_live [OF mb1]
  have len2: "length b2 = length b1" and pat: "map live b2 = map live b1"
    by simp_all
  from lvn have "live (b1 ! pos)"
    using live_nth [of "Suc n" pos b1 0] len1 le by simp
  moreover from pat have "map live b2 ! pos = map live b1 ! pos" by simp
  ultimately have "live (b2 ! pos)"
    using len1 len2 le by simp
  then obtain old where "deref b2 pos = Inr old"
    using len1 len2 le by (auto simp: deref_def live_def)
  with r1 nt assms(5) show ?thesis
    unfolding unf by simp
qed


lemma Emplace_takes_shift_branch:
  assumes "inv v" "m_size v < Capacity v" "pos < m_size v"
  shows "Emplace env pos ctor v = Emplace_shift env pos ctor v"
  using assms
  by (simp add: Emplace_def Vector_end_def RawMemory_plus_def Capacity_def)

text \<open>
  Claim C8.  For a vector that satisfies the invariant, with \<open>size < capacity\<close> and a
  position \<open>pos < size\<close>, an \<^verbatim>\<open>Emplace\<close> (or \<^verbatim>\<open>Insert\<close>) of the value \<open>x\<close> that returns
  normally returns \<open>pos\<close>; the new value is at position \<open>pos\<close>, the elements before
  \<open>pos\<close> are untouched and those from \<open>pos\<close> on have moved one position to the back with
  their values; the size is one more and the capacity is unchanged.  It returns
  normally whenever moving the last element and move-assigning elements do not
  throw.
\<close>
theorem Emplace_in_place:
  assumes "inv v" "Size v < Capacity v" "pos < Size v"
  shows "(\<forall>r. fst (Emplace env pos (Inr x) v) = Inr r \<longrightarrow>
            r = pos
            \<and> elems (snd (Emplace env pos (Inr x) v)) = take pos (elems v) @ x # drop pos (elems v)
            \<and> elems (snd (Emplace env pos (Inr x) v)) ! pos = x
            \<and> Size (snd (Emplace env pos (Inr x) v)) = Size v + 1
            \<and> Capacity (snd (Emplace env pos (Inr x) v)) = Capacity v
            \<and> inv (snd (Emplace env pos (Inr x) v)))
     \<and> ((nothrow_move_constructible env \<or> \<not> move_ctor_throws env (last (elems v)))
          \<and> (\<forall>a b. \<not> move_assign_throws env b a) \<longrightarrow>
        fst (Emplace env pos (Inr x) v) = Inr pos)
     \<and> Insert env pos (Inr x) v = Emplace env pos (Inr x) v"
proof (intro conjI allI impI)
  note a = assms [unfolded Size_def]
  note eq = Emplace_takes_shift_branch [OF a, of env "Inr x"]
  show "Insert env pos (Inr x) v = Emplace env pos (Inr x) v"
    by (simp add: Insert_def)
  {
    assume "(nothrow_move_constructible env \<or> \<not> move_ctor_throws env (last (elems v)))
          \<and> (\<forall>a b. \<not> move_assign_throws env b a)"
    with Emplace_shift_total [OF a, of env x] show "fst (Emplace env pos (Inr x) v) = Inr pos"
      by (simp add: eq)
  }
  fix r
  assume "fst (Emplace env pos (Inr x) v) = Inr r"
  then have "Emplace_shift env pos (Inr x) v = (Inr r, snd (Emplace env pos (Inr x) v))"
    unfolding eq by (cases "Emplace_shift env pos (Inr x) v") simp
  from Emplace_shift_ok [OF a this]
  have ok: "r = pos" "m_size (snd (Emplace env pos (Inr x) v)) = Suc (m_size v)"
    "Capacity (snd (Emplace env pos (Inr x) v)) = Capacity v"
    "elems (snd (Emplace env pos (Inr x) v)) = take pos (elems v) @ x # drop pos (elems v)"
    "inv (snd (Emplace env pos (Inr x) v))"
    by simp_all
  from ok show "r = pos" "Size (snd (Emplace env pos (Inr x) v)) = Size v + 1"
    "Capacity (snd (Emplace env pos (Inr x) v)) = Capacity v"
    "elems (snd (Emplace env pos (Inr x) v)) = take pos (elems v) @ x # drop pos (elems v)"
    "inv (snd (Emplace env pos (Inr x) v))"
    by (simp_all add: Size_def)
  from length_elems [OF assms(1)] a show "elems (snd (Emplace env pos (Inr x) v)) ! pos = x"
    by (simp add: ok(4) nth_append)
qed

theorem Emplace_in_place_witness:
  "inv (vector_of [1, 2, 3, 4, 5 :: int] 8)
   \<and> Size (vector_of [1, 2, 3, 4, 5 :: int] 8) < Capacity (vector_of [1, 2, 3, 4, 5 :: int] 8)
   \<and> 2 < Size (vector_of [1, 2, 3, 4, 5 :: int] 8)
   \<and> fst (Emplace int_elem 2 (Inr 99) (vector_of [1, 2, 3, 4, 5] 8)) = Inr 2
   \<and> elems (snd (Emplace int_elem 2 (Inr 99) (vector_of [1, 2, 3, 4, 5] 8))) = [1, 2, 99, 3, 4, 5]
   \<and> Size (snd (Emplace int_elem 2 (Inr 99) (vector_of [1, 2, 3, 4, 5] 8))) = 6
   \<and> Capacity (snd (Emplace int_elem 2 (Inr 99) (vector_of [1, 2, 3, 4, 5] 8))) = 8"
proof -
  have h: "inv (vector_of [1, 2, 3, 4, 5 :: int] 8)"
    "Size (vector_of [1, 2, 3, 4, 5 :: int] 8) < Capacity (vector_of [1, 2, 3, 4, 5 :: int] 8)"
    "2 < Size (vector_of [1, 2, 3, 4, 5 :: int] 8)"
    by code_simp+
  have c: "Size (vector_of [1, 2, 3, 4, 5 :: int] 8) = 5" "Capacity (vector_of [1, 2, 3, 4, 5 :: int] 8) = 8"
    "elems (vector_of [1, 2, 3, 4, 5 :: int] 8) = [1, 2, 3, 4, 5]"
    "nothrow_move_constructible int_elem" "\<forall>x y. \<not> move_assign_throws int_elem y x"
    by (simp_all add: Size_def Capacity_def vector_of_def elems_def slots_def block_of_def int_elem_def)
  from Emplace_in_place [OF h, of int_elem 99] h c
  show ?thesis by simp
qed

section \<open>Copy assignment\<close>

lemma copy_assign_refines:
  assumes "this \<noteq> rhs"
  shows "Vector_copy_assign env st this rhs = copy_assign_three_cases env st this rhs"
proof (cases "m_size (st this) = m_size (st rhs)")
  case True
  obtain r b where c: "CopyN env (slots (st rhs)) 0 (slots (st this)) 0 (m_size (st rhs)) = (r, b)"
    by (cases "CopyN env (slots (st rhs)) 0 (slots (st this)) 0 (m_size (st rhs))") auto
  from assms True c show ?thesis
    unfolding Vector_copy_assign_def copy_assign_three_cases_def Size_def Capacity_def
    by (cases r) (simp_all add: Vector_Swap_local_eq split: sum.splits)
next
  case False
  with assms show ?thesis
    unfolding Vector_copy_assign_def copy_assign_three_cases_def Size_def Capacity_def
    by (simp add: Vector_Swap_local_eq not_less split: sum.splits)
qed

lemma CopyN_length: "CopyN env fb s tb d n = (r, tb') \<Longrightarrow> length tb' = length tb"
proof (induction n arbitrary: s tb d)
  case 0
  then show ?case by simp
next
  case (Suc n)
  then show ?case
    by (fastforce split: sum.splits simp: step_simps)
qed

lemma CopyN_ok:
  "CopyN env fb s tb d n = (None, tb') \<Longrightarrow>
     tb' = take d tb @ take n (drop s fb) @ drop (d + n) tb"
proof (induction n arbitrary: s tb d)
  case 0
  then show ?case by simp
next
  case (Suc n)
  from Suc.prems obtain x where x: "s < length fb" "fb ! s = Some x" "d < length tb"
    and rec: "CopyN env fb (Suc s) (tb[d := Some x]) (Suc d) n = (None, tb')"
    by (auto split: sum.splits simp: step_simps)
  from Suc.IH [OF rec] x show ?case
    by (simp add: take_Suc_conv_app_nth Cons_nth_drop_Suc [symmetric])
qed

lemma CopyN_live: "CopyN env fb s tb d n = (r, tb') \<Longrightarrow> map live tb' = map live tb"
proof (induction n arbitrary: s tb d)
  case 0
  then show ?case by simp
next
  case (Suc n)
  show ?case
  proof (cases "\<exists>x y. deref fb s = Inr x \<and> deref tb d = Inr y \<and> \<not> copy_assign_throws env y x")
    case False
    with Suc.prems show ?thesis
      by (auto split: sum.splits simp: T_copy_assign_def)
  next
    case True
    then obtain x y where x: "fb ! s = Some x" "d < length tb" "tb ! d = Some y"
      "deref fb s = Inr x" "deref tb d = Inr y" "\<not> copy_assign_throws env y x"
      by (auto simp: step_simps)
    with Suc.prems have rec: "CopyN env fb (Suc s) (tb[d := Some x]) (Suc d) n = (r, tb')"
      by (simp add: T_copy_assign_def)
    from x have "live (tb ! d)" by (simp add: live_def)
    with Suc.IH [OF rec] x show ?thesis
      by (simp add: live_update)
  qed
qed

lemma CopyN_total:
  assumes "\<forall>x y. \<not> copy_assign_throws env y x"
  shows "s + n \<le> length fb \<Longrightarrow> d + n \<le> length tb \<Longrightarrow>
     list_all live (take n (drop s fb)) \<Longrightarrow> list_all live (take n (drop d tb)) \<Longrightarrow>
     fst (CopyN env fb s tb d n) = None"
proof (induction n arbitrary: s tb d)
  case 0
  then show ?case by simp
next
  case (Suc n)
  from Suc.prems obtain x y where x: "s < length fb" "fb ! s = Some x" "d < length tb" "tb ! d = Some y"
    by (cases "fb ! s"; cases "tb ! d") (auto simp: Cons_nth_drop_Suc [symmetric] live_def)
  then have "live (tb ! d)" by (simp add: live_def)
  with x have pat: "map live (tb[d := Some x]) = map live tb"
    by (simp add: live_update)
  from Suc.prems x have "list_all live (take n (drop (Suc s) fb))" "list_all live (take n (drop (Suc d) tb))"
    by (simp_all add: Cons_nth_drop_Suc [symmetric])
  with live_cong_range [OF pat] have "list_all live (take n (drop (Suc d) (tb[d := Some x])))"
    by simp
  with Suc.prems \<open>list_all live (take n (drop (Suc s) fb))\<close>
  have "fst (CopyN env fb (Suc s) (tb[d := Some x]) (Suc d) n) = None"
    by (intro Suc.IH) simp_all
  with x assms show ?case
    by (simp add: deref_def T_copy_assign_def)
qed


lemma Vector_copy_cases:
  assumes "inv other"
    "uninitialized_copy_n env (slots other) 0 (m_size other)
       (replicate (alloc_slots env (m_size other)) None) 0 = (r, b)"
  shows "Vector_copy env other
     = (if m_size other \<noteq> 0 \<and> new_fails env (m_size other) then Inl BadAlloc
        else case r of
               Some e \<Rightarrow> Inl e
             | None \<Rightarrow>
                 Inr \<lparr>m_data = \<lparr>m_buffer = (if m_size other = 0 then None else Some b),
                                 m_capacity = m_size other\<rparr>,
                      m_size = m_size other\<rparr>)"
  using assms(2)
  by (cases r; cases "m_size other = 0")
     (auto simp: Vector_copy_def RawMemory_sized_def Allocate_def block_of_def set_block_def)

lemma Vector_copy_ok:
  assumes "inv other" "Vector_copy env other = Inr c"
  shows "m_size c = m_size other \<and> Capacity c = m_size other \<and> elems c = elems other \<and> inv c"
proof -
  define k where "k = alloc_slots env (m_size other)"
  obtain r b where u:
    "uninitialized_copy_n env (slots other) 0 (m_size other) (replicate k None) 0 = (r, b)"
    by (cases "uninitialized_copy_n env (slots other) 0 (m_size other) (replicate k None) 0")
       auto
  from assms(2) have r: "r = None"
    and c: "c = \<lparr>m_data = \<lparr>m_buffer = (if m_size other = 0 then None else Some b),
                                 m_capacity = m_size other\<rparr>,
                      m_size = m_size other\<rparr>"
    unfolding Vector_copy_cases [OF assms(1) u [unfolded k_def]] by (cases r; simp split: if_splits)+
  have "k \<le> m_size other"
    unfolding k_def by (rule alloc_slots_le)
  with uninitialized_copy_n_ok [of env "slots other" 0 "m_size other" "replicate k None" 0 b] u r
  have b: "b = take (m_size other) (slots other)"
    by auto
  from assms(1) have le: "m_size other \<le> length (slots other)"
    and live: "list_all live (take (m_size other) (slots other))"
    by (simp_all add: inv_iff)
  from le have sl: "slots c = take (m_size other) (slots other)"
    by (simp add: c slots_def block_of_def b)
  from le live show ?thesis
    by (simp add: inv_iff elems_def sl) (simp add: c Capacity_def)
qed

lemma Vector_copy_total:
  assumes "inv other" "m_size other = 0 \<or> \<not> new_fails env (m_size other)"
    "\<not> list_ex (copy_ctor_throws env) (elems other)"
    "alloc_slots env (m_size other) = m_size other"
  shows "\<exists>c. Vector_copy env other = Inr c"
proof -
  define k where "k = alloc_slots env (m_size other)"
  obtain r b where u:
    "uninitialized_copy_n env (slots other) 0 (m_size other) (replicate k None) 0 = (r, b)"
    by (cases "uninitialized_copy_n env (slots other) 0 (m_size other) (replicate k None) 0")
       auto
  from assms(1) have le: "m_size other \<le> length (slots other)"
    and live: "list_all live (take (m_size other) (slots other))"
    by (simp_all add: inv_iff)
  from assms(4) have k: "k = m_size other"
    by (simp add: k_def)
  from uninitialized_copy_n_outcome [of 0 "m_size other" "slots other" 0 "replicate k None" env]
    le live u assms(3) k
  have "r = None"
    by (simp add: elems_def)
  with assms(2) show ?thesis
    unfolding Vector_copy_cases [OF assms(1) u [unfolded k_def]] by auto
qed

lemma Vector_dtor_ok: "inv v \<Longrightarrow> fst (Vector_dtor v) = None"
  using destroy_n_live [of 0 "m_size v" "slots v"]
  by (simp add: Vector_dtor_def inv_iff)

lemma copy_assign_grow:
  assumes "this \<noteq> rhs" "m_capacity (m_data (st this)) < m_size (st rhs)"
  shows "Vector_copy_assign env st this rhs
     = (case Vector_copy env (st rhs) of
          Inl e \<Rightarrow> (Some e, st)
        | Inr c \<Rightarrow> (fst (Vector_dtor (st this)), st(this := c)))"
  using assms
  by (simp add: Vector_copy_assign_def Vector_Swap_local_eq split: sum.splits)

lemma copy_assign_shrink:
  assumes "this \<noteq> rhs" "m_size (st rhs) \<le> m_capacity (m_data (st this))"
    "m_size (st rhs) < m_size (st this)"
    "CopyN env (slots (st rhs)) 0 (slots (st this)) 0 (m_size (st rhs)) = (r1, b1)"
    "destroy_n b1 (m_size (st rhs)) (m_size (st this) - m_size (st rhs)) = (r2, b2)"
  shows "Vector_copy_assign env st this rhs
     = (case r1 of
          Some e \<Rightarrow> (Some e, st(this := set_slots (st this) b1))
        | None \<Rightarrow>
            (case r2 of
               Some e \<Rightarrow> (Some e, st(this := set_slots (st this) b2))
             | None \<Rightarrow> (None, st(this := (set_slots (st this) b2)\<lparr>m_size := m_size (st rhs)\<rparr>))))"
  using assms
  by (cases r1; cases r2) (simp_all add: Vector_copy_assign_def)

lemma copy_assign_fill:
  assumes "this \<noteq> rhs" "m_size (st rhs) \<le> m_capacity (m_data (st this))"
    "m_size (st this) \<le> m_size (st rhs)"
    "CopyN env (slots (st rhs)) 0 (slots (st this)) 0 (m_size (st this)) = (r1, b1)"
    "uninitialized_copy_n env (slots (st rhs)) (m_size (st this))
       (m_size (st rhs) - m_size (st this)) b1 (m_size (st this)) = (r2, b2)"
  shows "Vector_copy_assign env st this rhs
     = (case r1 of
          Some e \<Rightarrow> (Some e, st(this := set_slots (st this) b1))
        | None \<Rightarrow>
            (case r2 of
               Some e \<Rightarrow> (Some e, st(this := set_slots (st this) b2))
             | None \<Rightarrow> (None, st(this := (set_slots (st this) b2)\<lparr>m_size := m_size (st rhs)\<rparr>))))"
  using assms
  by (cases r1; cases r2) (simp_all add: Vector_copy_assign_def)


lemma take_split: "k \<le> n \<Longrightarrow> take n xs = take k xs @ take (n - k) (drop k xs)"
  by (metis le_add_diff_inverse take_add)

lemma copy_assign_ok:
  assumes "this \<noteq> rhs" "inv (st this)" "inv (st rhs)"
    "Vector_copy_assign env st this rhs = (None, st')"
  shows "\<exists>v'. st' = st(this := v') \<and> m_size v' = m_size (st rhs) \<and> elems v' = elems (st rhs)
     \<and> (m_size (st rhs) \<le> Capacity (st this) \<longrightarrow> Capacity v' = Capacity (st this)) \<and> inv v'"
proof -
  define sa where "sa = slots (st this)"
  define sb where "sb = slots (st rhs)"
  define na where "na = m_size (st this)"
  define nb where "nb = m_size (st rhs)"
  define ca where "ca = Capacity (st this)"
  from assms(2) have a: "na \<le> ca" "length sa = ca" "list_all live (take na sa)"
    "drop na sa = replicate (ca - na) None"
    by (simp_all add: inv_iff sa_def na_def ca_def)
  from assms(3) have b: "nb \<le> length sb" "list_all live (take nb sb)"
    by (simp_all add: inv_iff sb_def nb_def)
  show ?thesis
  proof (cases "ca < nb")
    case True
    then have g: "m_capacity (m_data (st this)) < m_size (st rhs)"
      by (simp add: ca_def nb_def Capacity_def)
    from assms(4) obtain c where c: "Vector_copy env (st rhs) = Inr c" and st': "st' = st(this := c)"
      unfolding copy_assign_grow [OF assms(1) g] by (auto split: sum.splits)
    from Vector_copy_ok [OF assms(3) c] True st' show ?thesis
      by (auto simp: ca_def nb_def)
  next
    case False
    then have le: "nb \<le> ca" by simp
    then have g: "m_size (st rhs) \<le> m_capacity (m_data (st this))"
      by (simp add: ca_def nb_def Capacity_def)
    show ?thesis
    proof (cases "nb < na")
      case True
      then have lt: "m_size (st rhs) < m_size (st this)"
        by (simp add: na_def nb_def)
      obtain r1 b1 where c1: "CopyN env sb 0 sa 0 nb = (r1, b1)"
        by (cases "CopyN env sb 0 sa 0 nb") auto
      obtain r2 b2 where d2: "destroy_n b1 nb (na - nb) = (r2, b2)"
        by (cases "destroy_n b1 nb (na - nb)") auto
      note unf = copy_assign_shrink [OF assms(1) g lt c1 [unfolded sa_def sb_def nb_def]
          d2 [unfolded na_def nb_def]]
      from assms(4) have r: "r1 = None" "r2 = None"
        and st': "st' = st(this := (set_slots (st this) b2)\<lparr>m_size := m_size (st rhs)\<rparr>)"
        unfolding unf by (cases r1; cases r2; simp)+
      from CopyN_ok [of env sb 0 sa 0 nb b1] c1 r have b1: "b1 = take nb sb @ drop nb sa"
        by simp
      from b True have tk: "take nb b1 = take nb sb" and dr: "drop na b1 = drop na sa"
        by (simp_all add: b1)
      from destroy_n_ok [of b1 nb "na - nb" b2] d2 r True tk dr a
      have b2: "b2 = take nb sb @ replicate (na - nb) None @ replicate (ca - na) None"
        by simp
      from a True have rep: "replicate (na - nb) None @ replicate (ca - na) None
          = replicate (ca - nb) None"
        by (simp add: replicate_add [symmetric])
      have b2': "b2 = take nb sb @ replicate (ca - nb) None"
        by (simp only: b2 rep)
      define v' where "v' = (set_slots (st this) b2)\<lparr>m_size := m_size (st rhs)\<rparr>"
      from b le a have sl: "slots v' = take nb sb @ replicate (ca - nb) None"
        by (simp add: v'_def slots_set_slots b2' sa_def [symmetric])
      have sz: "m_size v' = nb" "Capacity v' = ca"
        by (simp_all add: v'_def nb_def ca_def)
      from b le have "elems v' = elems (st rhs) \<and> inv v'"
        by (simp add: inv_iff elems_def sl sz nb_def [symmetric] sb_def [symmetric])
      with sz st' show ?thesis
        by (intro exI [of _ v']) (simp add: v'_def [symmetric] nb_def ca_def)
    next
      case False
      then have ge: "m_size (st this) \<le> m_size (st rhs)" and ge': "na \<le> nb"
        by (simp_all add: na_def nb_def)
      obtain r1 b1 where c1: "CopyN env sb 0 sa 0 na = (r1, b1)"
        by (cases "CopyN env sb 0 sa 0 na") auto
      obtain r2 b2 where u2: "uninitialized_copy_n env sb na (nb - na) b1 na = (r2, b2)"
        by (cases "uninitialized_copy_n env sb na (nb - na) b1 na") auto
      note unf = copy_assign_fill [OF assms(1) g ge c1 [unfolded sa_def sb_def na_def]
          u2 [unfolded sb_def na_def nb_def]]
      from assms(4) have r: "r1 = None" "r2 = None"
        and st': "st' = st(this := (set_slots (st this) b2)\<lparr>m_size := m_size (st rhs)\<rparr>)"
        unfolding unf by (cases r1; cases r2; simp)+
      from CopyN_ok [of env sb 0 sa 0 na b1] c1 r have b1: "b1 = take na sb @ drop na sa"
        by simp
      from b ge' have tk: "take na b1 = take na sb" and dr: "drop nb b1 = drop (nb - na) (drop na sa)"
        by (simp_all add: b1)
      from uninitialized_copy_n_ok [of env sb na "nb - na" b1 na b2] u2 r ge' tk dr
      have "b2 = take na sb @ take (nb - na) (drop na sb) @ drop (nb - na) (drop na sa)"
        by simp
      with take_split [OF ge', of sb] a le ge'
      have b2': "b2 = take nb sb @ replicate (ca - nb) None"
        by simp
      define v' where "v' = (set_slots (st this) b2)\<lparr>m_size := m_size (st rhs)\<rparr>"
      from b le a have sl: "slots v' = take nb sb @ replicate (ca - nb) None"
        by (simp add: v'_def slots_set_slots b2' sa_def [symmetric])
      have sz: "m_size v' = nb" "Capacity v' = ca"
        by (simp_all add: v'_def nb_def ca_def)
      from b le have "elems v' = elems (st rhs) \<and> inv v'"
        by (simp add: inv_iff elems_def sl sz nb_def [symmetric] sb_def [symmetric])
      with sz st' show ?thesis
        by (intro exI [of _ v']) (simp add: v'_def [symmetric] nb_def ca_def)
    qed
  qed
qed


lemma copy_assign_total:
  assumes "this \<noteq> rhs" "inv (st this)" "inv (st rhs)"
    "Capacity (st this) < m_size (st rhs) \<longrightarrow> \<not> new_fails env (m_size (st rhs))"
    "\<not> list_ex (copy_ctor_throws env) (elems (st rhs))"
    "\<forall>x y. \<not> copy_assign_throws env y x"
    "in_memory env (st rhs)"
  shows "fst (Vector_copy_assign env st this rhs) = None"
proof -
  define sa where "sa = slots (st this)"
  define sb where "sb = slots (st rhs)"
  define na where "na = m_size (st this)"
  define nb where "nb = m_size (st rhs)"
  define ca where "ca = Capacity (st this)"
  from assms(2) have a: "na \<le> ca" "length sa = ca" "list_all live (take na sa)"
    by (simp_all add: inv_iff sa_def na_def ca_def)
  from assms(3) have b: "nb \<le> length sb" "list_all live (take nb sb)"
    by (simp_all add: inv_iff sb_def nb_def)
  show ?thesis
  proof (cases "ca < nb")
    case True
    then have g: "m_capacity (m_data (st this)) < m_size (st rhs)"
      by (simp add: ca_def nb_def Capacity_def)
    from True assms(4) have "m_size (st rhs) = 0 \<or> \<not> new_fails env (m_size (st rhs))"
      by (simp add: ca_def nb_def)
    from Vector_copy_total [OF assms(3) this assms(5) in_memory_size [OF assms(7) inv_le [OF assms(3)]]]
    obtain c where "Vector_copy env (st rhs) = Inr c"
      by auto
    with Vector_dtor_ok [OF assms(2)] show ?thesis
      unfolding copy_assign_grow [OF assms(1) g] by simp
  next
    case False
    then have le: "nb \<le> ca" by simp
    then have g: "m_size (st rhs) \<le> m_capacity (m_data (st this))"
      by (simp add: ca_def nb_def Capacity_def)
    show ?thesis
    proof (cases "nb < na")
      case True
      then have lt: "m_size (st rhs) < m_size (st this)"
        by (simp add: na_def nb_def)
      obtain r1 b1 where c1: "CopyN env sb 0 sa 0 nb = (r1, b1)"
        by (cases "CopyN env sb 0 sa 0 nb") auto
      obtain r2 b2 where d2: "destroy_n b1 nb (na - nb) = (r2, b2)"
        by (cases "destroy_n b1 nb (na - nb)") auto
      note unf = copy_assign_shrink [OF assms(1) g lt c1 [unfolded sa_def sb_def nb_def]
          d2 [unfolded na_def nb_def]]
      from True have split: "take na sa = take nb sa @ take (na - nb) (drop nb sa)"
        by (intro take_split) simp
      with a have la: "list_all live (take nb sa)" "list_all live (take (na - nb) (drop nb sa))"
        by simp_all
      from CopyN_total [OF assms(6), of 0 nb sb 0 sa] a b le la c1 have r1: "r1 = None"
        by simp
      from CopyN_length [OF c1] CopyN_live [OF c1] have len1: "length b1 = length sa"
        and pat: "map live b1 = map live sa"
        by simp_all
      from live_cong_range [OF pat, of "na - nb" nb] la
      have "list_all live (take (na - nb) (drop nb b1))"
        by simp
      with destroy_n_live [of nb "na - nb" b1] len1 a True d2 have "r2 = None"
        by simp
      with r1 show ?thesis
        unfolding unf by simp
    next
      case False
      then have ge: "m_size (st this) \<le> m_size (st rhs)" and ge': "na \<le> nb"
        by (simp_all add: na_def nb_def)
      obtain r1 b1 where c1: "CopyN env sb 0 sa 0 na = (r1, b1)"
        by (cases "CopyN env sb 0 sa 0 na") auto
      obtain r2 b2 where u2: "uninitialized_copy_n env sb na (nb - na) b1 na = (r2, b2)"
        by (cases "uninitialized_copy_n env sb na (nb - na) b1 na") auto
      note unf = copy_assign_fill [OF assms(1) g ge c1 [unfolded sa_def sb_def na_def]
          u2 [unfolded sb_def na_def nb_def]]
      from ge' have split: "take nb sb = take na sb @ take (nb - na) (drop na sb)"
        by (intro take_split)
      with b have lb: "list_all live (take na sb)" "list_all live (take (nb - na) (drop na sb))"
        by simp_all
      from CopyN_total [OF assms(6), of 0 na sb 0 sa] a b le ge' lb c1 have r1: "r1 = None"
        by simp
      from CopyN_length [OF c1] have len1: "length b1 = length sa"
        by simp
      from assms(5) have "\<not> list_ex (copy_ctor_throws env) (map the (take (nb - na) (drop na sb)))"
        by (simp add: elems_def nb_def [symmetric] sb_def [symmetric] split)
      with uninitialized_copy_n_outcome [of na "nb - na" sb na b1 env] len1 a b le ge' lb u2
      have "r2 = None"
        by simp
      with r1 show ?thesis
        unfolding unf by simp
    qed
  qed
qed

text \<open>
  Claim C5.  For two distinct vectors that satisfy the invariant, copy-assignment
  takes the path the three-case rule selects.  When it returns normally, the
  target has the size of \<open>rhs\<close> and the same elements as \<open>rhs\<close>, every other vector
  (\<open>rhs\<close> among them) is unchanged, and where \<open>rhs.size \<le> capacity\<close> (cases 2 and 3) the
  capacity of the target is unchanged.  It returns normally whenever \<open>rhs\<close> exists
  in memory (so that the byte count of a block for its elements is below \<open>2^64\<close>),
  the allocation of case 1 succeeds and copying and copy-assigning elements do not
  throw.
\<close>
theorem copy_assign_contract:
  assumes "this \<noteq> rhs" "inv (st this)" "inv (st rhs)"
  shows "Vector_copy_assign env st this rhs = copy_assign_three_cases env st this rhs
     \<and> (fst (Vector_copy_assign env st this rhs) = None \<longrightarrow>
          Size (snd (Vector_copy_assign env st this rhs) this) = Size (st rhs)
          \<and> elems (snd (Vector_copy_assign env st this rhs) this) = elems (st rhs)
          \<and> (Size (st rhs) \<le> Capacity (st this) \<longrightarrow>
               Capacity (snd (Vector_copy_assign env st this rhs) this) = Capacity (st this))
          \<and> inv (snd (Vector_copy_assign env st this rhs) this)
          \<and> (\<forall>p. p \<noteq> this \<longrightarrow> snd (Vector_copy_assign env st this rhs) p = st p))
     \<and> (in_memory env (st rhs)
          \<and> (Capacity (st this) < Size (st rhs) \<longrightarrow> \<not> new_fails env (Size (st rhs)))
          \<and> \<not> list_ex (copy_ctor_throws env) (elems (st rhs))
          \<and> (\<forall>x y. \<not> copy_assign_throws env y x) \<longrightarrow>
        fst (Vector_copy_assign env st this rhs) = None)"
proof (intro conjI impI)
  show "Vector_copy_assign env st this rhs = copy_assign_three_cases env st this rhs"
    by (rule copy_assign_refines [OF assms(1)])
next
  assume "in_memory env (st rhs)
          \<and> (Capacity (st this) < Size (st rhs) \<longrightarrow> \<not> new_fails env (Size (st rhs)))
          \<and> \<not> list_ex (copy_ctor_throws env) (elems (st rhs))
          \<and> (\<forall>x y. \<not> copy_assign_throws env y x)"
  with copy_assign_total [OF assms, of env] show "fst (Vector_copy_assign env st this rhs) = None"
    by (simp add: Size_def)
next
  assume "fst (Vector_copy_assign env st this rhs) = None"
  then have "Vector_copy_assign env st this rhs = (None, snd (Vector_copy_assign env st this rhs))"
    by (cases "Vector_copy_assign env st this rhs") simp
  from copy_assign_ok [OF assms this] obtain v' where
    v': "snd (Vector_copy_assign env st this rhs) = st(this := v')" "m_size v' = m_size (st rhs)"
      "elems v' = elems (st rhs)"
      "m_size (st rhs) \<le> Capacity (st this) \<longrightarrow> Capacity v' = Capacity (st this)" "inv v'"
    by auto
  from v' show "Size (snd (Vector_copy_assign env st this rhs) this) = Size (st rhs)"
    "elems (snd (Vector_copy_assign env st this rhs) this) = elems (st rhs)"
    "inv (snd (Vector_copy_assign env st this rhs) this)"
    "\<forall>p. p \<noteq> this \<longrightarrow> snd (Vector_copy_assign env st this rhs) p = st p"
    by (simp_all add: Size_def)
  assume "Size (st rhs) \<le> Capacity (st this)"
  with v' show "Capacity (snd (Vector_copy_assign env st this rhs) this) = Capacity (st this)"
    by (simp add: Size_def)
qed

theorem copy_assign_contract_witness:
  "True \<noteq> False \<and> inv (two_vectors True) \<and> inv (two_vectors False)
   \<and> in_memory int_elem (two_vectors True) \<and> in_memory int_elem (two_vectors False)
   \<and> fst (Vector_copy_assign int_elem two_vectors True False) = None
   \<and> elems (snd (Vector_copy_assign int_elem two_vectors True False) True) = [9, 9, 9]
   \<and> Size (snd (Vector_copy_assign int_elem two_vectors True False) True) = 3
   \<and> fst (Vector_copy_assign int_elem two_vectors False True) = None
   \<and> elems (snd (Vector_copy_assign int_elem two_vectors False True) False) = [1, 2]
   \<and> Size (snd (Vector_copy_assign int_elem two_vectors False True) False) = 2
   \<and> Capacity (snd (Vector_copy_assign int_elem two_vectors False True) False) = 4"
proof -
  have h: "inv (two_vectors True)" "inv (two_vectors False)"
    by code_simp+
  have c: "Size (two_vectors True) = 2" "Size (two_vectors False) = 3"
    "Capacity (two_vectors True) = 2" "Capacity (two_vectors False) = 4"
    "elems (two_vectors True) = [1, 2]" "elems (two_vectors False) = [9, 9, 9]"
    "\<not> new_fails int_elem 3"
    "\<not> list_ex (copy_ctor_throws int_elem) [9, 9, 9]" "\<not> list_ex (copy_ctor_throws int_elem) [1, 2]"
    "\<forall>x y. \<not> copy_assign_throws int_elem y x"
    "in_memory int_elem (two_vectors True)" "in_memory int_elem (two_vectors False)"
    by (simp_all add: two_vectors_def Size_def Capacity_def vector_of_def elems_def slots_def
        block_of_def int_elem_def in_memory_def)
  from copy_assign_contract [where this = True and rhs = False and st = two_vectors and env = int_elem,
      THEN conjunct2]
    copy_assign_contract [where this = False and rhs = True and st = two_vectors and env = int_elem,
      THEN conjunct2]
    h c
  show ?thesis by simp
qed

end
